theory Spec2Isabelle
  imports Main
begin

section \<open>Strings and regular expressions of the client\<close>

text \<open>
  A JavaScript string is modelled as a \<^typ>\<open>string\<close>: a list of code units, each
  below 256. The empty string is the only falsy string.
\<close>

definition truthy :: "string \<Rightarrow> bool" where
  "truthy s = (s \<noteq> [])"

text \<open>
  The anchored pattern of \<open>validateEmail\<close> is run by a matcher of regular expressions
  with character classes, by derivatives. \<open>Plus r\<close> is the \<open>+\<close> of the pattern.
\<close>

datatype rx = Zero | One | Cls "char \<Rightarrow> bool" | Alt rx rx | Cat rx rx | Star rx

abbreviation Plus :: "rx \<Rightarrow> rx" where
  "Plus r \<equiv> Cat r (Star r)"

fun nullable :: "rx \<Rightarrow> bool" where
  "nullable Zero = False"
| "nullable One = True"
| "nullable (Cls P) = False"
| "nullable (Alt r s) = (nullable r \<or> nullable s)"
| "nullable (Cat r s) = (nullable r \<and> nullable s)"
| "nullable (Star r) = True"

fun deriv :: "char \<Rightarrow> rx \<Rightarrow> rx" where
  "deriv c Zero = Zero"
| "deriv c One = Zero"
| "deriv c (Cls P) = (if P c then One else Zero)"
| "deriv c (Alt r s) = Alt (deriv c r) (deriv c s)"
| "deriv c (Cat r s) =
     (if nullable r then Alt (Cat (deriv c r) s) (deriv c s) else Cat (deriv c r) s)"
| "deriv c (Star r) = Cat (deriv c r) (Star r)"

fun derivs :: "string \<Rightarrow> rx \<Rightarrow> rx" where
  "derivs [] r = r"
| "derivs (c # cs) r = derivs cs (deriv c r)"

text \<open>\<open>/^r$/.test(s)\<close>: the whole of \<open>s\<close> matches \<open>r\<close>.\<close>

definition rx_test :: "rx \<Rightarrow> string \<Rightarrow> bool" where
  "rx_test r s = nullable (derivs s r)"

text \<open>\<open>/[class]/.test(s)\<close>, not anchored: some character of \<open>s\<close> is in the class.\<close>

definition class_test :: "(char \<Rightarrow> bool) \<Rightarrow> string \<Rightarrow> bool" where
  "class_test P s = list_ex P s"

text \<open>
  The classes of the source. \<open>\s\<close> below code unit 256 is tab, line feed, vertical tab,
  form feed, carriage return, space and the no-break space.
\<close>

definition code_unit :: "char \<Rightarrow> nat" where
  "code_unit c = of_char c"

definition is_space :: "char \<Rightarrow> bool" where
  "is_space c = (code_unit c \<in> set [9, 10, 11, 12, 13, 32, 160])"

definition not_space_at :: "char \<Rightarrow> bool" where
  "not_space_at c = (\<not> is_space c \<and> c \<noteq> CHR ''@'')"

definition is_upper :: "char \<Rightarrow> bool" where
  "is_upper c = (65 \<le> code_unit c \<and> code_unit c \<le> 90)"

definition is_lower :: "char \<Rightarrow> bool" where
  "is_lower c = (97 \<le> code_unit c \<and> code_unit c \<le> 122)"

definition is_digit :: "char \<Rightarrow> bool" where
  "is_digit c = (48 \<le> code_unit c \<and> code_unit c \<le> 57)"

definition is_special :: "char \<Rightarrow> bool" where
  "is_special c = (c \<in> set ''@$!%*?&'')"

text \<open>\<open>/^[^\s@]+@[^\s@]+\.[^\s@]+$/\<close>\<close>

definition emailRegex :: rx where
  "emailRegex =
     Cat (Plus (Cls not_space_at))
       (Cat (Cls (\<lambda>c. c = CHR ''@''))
         (Cat (Plus (Cls not_space_at))
           (Cat (Cls (\<lambda>c. c = CHR ''.''))
             (Plus (Cls not_space_at)))))"

section \<open>Validation (AuthForm)\<close>

definition validateEmail :: "string \<Rightarrow> string" where
  "validateEmail v =
     (if \<not> truthy v then ''Email is required''
      else if \<not> rx_test emailRegex v then ''Invalid email''
      else '''')"

definition validatePassword :: "bool \<Rightarrow> string \<Rightarrow> string" where
  "validatePassword isLogin v =
     (if \<not> truthy v then ''Password is required''
      else if \<not> isLogin then
        (if length v < 8 then ''Password must be at least 8 characters''
         else if \<not> class_test is_upper v then ''Must contain an uppercase letter''
         else if \<not> class_test is_lower v then ''Must contain a lowercase letter''
         else if \<not> class_test is_digit v then ''Must contain a number''
         else if \<not> class_test is_special v then ''Must contain a special character @$!%*?&''
         else '''')
      else '''')"

section \<open>Data model\<close>

text \<open>
  A task record of the API: \<open>_id\<close>, \<open>title\<close>, \<open>description\<close> and \<open>status\<close>. The record is
  extensible, so that the object spread \<open>{...task, status: s}\<close> is the record update of
  \<open>task_status\<close>: every other field, also one the server adds, is copied.
\<close>

record task =
  task_id :: string
  task_title :: string
  task_description :: string
  task_status :: string

text \<open>An entry of the \<open>errors\<close> array of an error response.\<close>

record field_error =
  path :: string
  msg :: string

text \<open>
  \<open>err.response\<close> of a rejected request: the status and, of its \<open>data\<close>, the \<open>errors\<close> array
  and the \<open>message\<close>, either of which can be absent (\<open>undefined\<close>). The \<open>data\<close> itself is
  there, as the HTTP library gives one to every response and \<open>handleSubmit\<close> reads
  \<open>err.response.data.errors\<close> unguarded. A rejection with no response at all (a network
  failure) is \<open>Rejected None\<close>.
\<close>

record err_response =
  status :: nat
  errors :: "field_error list option"
  message :: "string option"

datatype 'a http_result = Resolved 'a | Rejected "err_response option"

datatype http_method = GET | POST | PUT | DELETE

datatype body =
    NoBody
  | Credentials string string
  | TaskFields string string string
  | TaskObject task

record request =
  meth :: http_method
  url :: string
  params :: "(string \<times> string) list"
  body :: body
  headers :: "string \<rightharpoonup> string"

text \<open>
  The remote API, as the client sees it: what each request is answered with, given the
  requests sent before it. The \<open>data\<close> of a successful login or signup is read only at
  \<open>token\<close>, a string; that of a successful task list is the list of tasks; that of a
  successful create, update or delete is not read.
\<close>

text \<open>
  What happens on the network, in order: a request is sent, a reply is handed to the code
  that awaited it. Requests are named by their position among the requests sent.
\<close>

datatype event = Issued nat | Settled nat

text \<open>
  \<open>arrives\<close> is the order of arrival: given what has happened so far, which of the replies
  in flight comes in next (an index into them, oldest first, taken modulo their number).
\<close>

record server =
  auth_reply :: "request list \<Rightarrow> request \<Rightarrow> string http_result"
  tasks_reply :: "request list \<Rightarrow> request \<Rightarrow> task list http_result"
  write_reply :: "request list \<Rightarrow> request \<Rightarrow> unit http_result"
  arrives :: "event list \<Rightarrow> nat"

record toast =
  toast_show :: bool
  toast_msg :: string
  toast_variant :: string

text \<open>The calls of \<open>localStorage\<close> on the key \<open>token\<close>, in the order they are made.\<close>

datatype storage_op = SetItem string | RemoveItem

text \<open>
  The state of the client: the \<open>token\<close> entry of \<open>localStorage\<close> with the log of its writes,
  the requests sent so far, the network events so far, what \<open>console.error\<close> was called
  with, the state variables of \<open>App\<close> and (prefixed \<open>af_\<close>) those of \<open>AuthForm\<close>.
\<close>

record app =
  ls_token :: "string option"
  ls_log :: "storage_op list"
  sent :: "request list"
  events :: "event list"
  console :: "err_response option list"
  userLoaded :: bool
  tasks :: "task list"
  filterQ :: string
  filterStatus :: string
  title :: string
  description :: string
  editingTask :: "task option"
  fieldErrors :: "string \<rightharpoonup> string"
  toast :: toast
  showDeleteModal :: bool
  deleteTaskId :: "string option"
  af_isLogin :: bool
  af_email :: string
  af_password :: string
  af_fieldErrors :: "string \<rightharpoonup> string"
  af_loading :: bool

datatype view = AuthView | TaskView

text \<open>\<open>if(!userLoaded) return (... AuthForm ...)\<close>\<close>

definition render :: "app \<Rightarrow> view" where
  "render st = (if \<not> userLoaded st then AuthView else TaskView)"

section \<open>The HTTP client wrapper (services/api.js, services/authService.js)\<close>

text \<open>The request interceptor: \<open>if (token) config.headers.Authorization = `Bearer ${token}`\<close>.\<close>

definition interceptor :: "string option \<Rightarrow> request \<Rightarrow> request" where
  "interceptor token config =
     (case token of
        None \<Rightarrow> config
      | Some t \<Rightarrow>
          if truthy t
          then config\<lparr>headers := (headers config)(''Authorization'' \<mapsto> ''Bearer '' @ t)\<rparr>
          else config)"

text \<open>
  A request as the calls of this repository build it: they pass an HTTP verb, a URL, query
  parameters or a body, and no header of their own.
\<close>

definition mk_request :: "http_method \<Rightarrow> string \<Rightarrow> (string \<times> string) list \<Rightarrow> body \<Rightarrow> request" where
  "mk_request m u ps b = \<lparr>meth = m, url = u, params = ps, body = b, headers = Map.empty\<rparr>"

text \<open>
  Issuing a request: the interceptor reads the stored token at that moment, the request
  goes out, and the reply is what the awaiting code continues with.
\<close>

definition issue :: "(request list \<Rightarrow> request \<Rightarrow> 'a http_result) \<Rightarrow> request \<Rightarrow> app \<Rightarrow> 'a http_result \<times> app" where
  "issue reply config st =
     (let r = interceptor (ls_token st) config
      in (reply (sent st) r, st\<lparr>sent := sent st @ [r]\<rparr>))"

definition doSignup :: "server \<Rightarrow> string \<Rightarrow> string \<Rightarrow> app \<Rightarrow> string http_result \<times> app" where
  "doSignup srv email password st =
     issue (auth_reply srv) (mk_request POST ''/auth/signup'' [] (Credentials email password)) st"

definition doLogin :: "server \<Rightarrow> string \<Rightarrow> string \<Rightarrow> app \<Rightarrow> string http_result \<times> app" where
  "doLogin srv email password st =
     issue (auth_reply srv) (mk_request POST ''/auth/login'' [] (Credentials email password)) st"

section \<open>Handlers of App and AuthForm (App.js)\<close>

text \<open>
  Each asynchronous handler is given twice. First as one function from the state in which
  it is called to the state it leaves once its requests are answered, an \<open>await\<close> handing
  the reply to the statements after it: this is what the handler does when nothing else
  runs in between. Then, in the section on scheduling, cut at its \<open>await\<close> into the part
  that runs when it is called and the part that runs when the reply arrives, so that
  renders, effects and other replies can come in between.
\<close>

definition showToast :: "string \<Rightarrow> string \<Rightarrow> app \<Rightarrow> app" where
  "showToast m v st = st\<lparr>toast := \<lparr>toast_show = True, toast_msg = m, toast_variant = v\<rparr>\<rparr>"

definition setItem :: "string \<Rightarrow> app \<Rightarrow> app" where
  "setItem t st = st\<lparr>ls_token := Some t, ls_log := ls_log st @ [SetItem t]\<rparr>"

definition removeItem :: "app \<Rightarrow> app" where
  "removeItem st = st\<lparr>ls_token := None, ls_log := ls_log st @ [RemoveItem]\<rparr>"

text \<open>\<open>err.response?.status\<close>\<close>

definition err_status :: "err_response option \<Rightarrow> nat option" where
  "err_status e = (case e of None \<Rightarrow> None | Some r \<Rightarrow> Some (status r))"

subsection \<open>loadTasks\<close>

definition loadTasks_request :: "app \<Rightarrow> request" where
  "loadTasks_request st =
     mk_request GET ''/tasks''
       ((if truthy (filterStatus st) then [(''status'', filterStatus st)] else []) @
        (if truthy (filterQ st) then [(''q'', filterQ st)] else []))
       NoBody"

text \<open>
  \<open>loadTasks\<close> runs up to its \<open>await\<close> when it is called (\<open>loadTasks_issue\<close>) and continues
  when the reply is there (\<open>loadTasks_settle\<close>). A caller that does not await it runs its
  own remaining statements in between.
\<close>

definition loadTasks_issue :: "server \<Rightarrow> app \<Rightarrow> task list http_result \<times> app" where
  "loadTasks_issue srv st = issue (tasks_reply srv) (loadTasks_request st) st"

definition loadTasks_settle :: "task list http_result \<Rightarrow> app \<Rightarrow> app" where
  "loadTasks_settle res st =
     (case res of
        Resolved ts \<Rightarrow> st\<lparr>tasks := ts\<rparr>
      | Rejected e \<Rightarrow>
          (let st1 = st\<lparr>console := console st @ [e]\<rparr>
           in if err_status e = Some 401
              then showToast ''Session expired, please login'' ''danger''
                     ((removeItem st1)\<lparr>userLoaded := False\<rparr>)
              else st1))"

definition loadTasks :: "server \<Rightarrow> app \<Rightarrow> app" where
  "loadTasks srv st = (case loadTasks_issue srv st of (res, st1) \<Rightarrow> loadTasks_settle res st1)"

subsection \<open>AuthForm\<close>

definition handleEmailChange :: "string \<Rightarrow> app \<Rightarrow> app" where
  "handleEmailChange v st =
     st\<lparr>af_email := v, af_fieldErrors := (af_fieldErrors st)(''email'' \<mapsto> validateEmail v)\<rparr>"

definition handlePasswordChange :: "string \<Rightarrow> app \<Rightarrow> app" where
  "handlePasswordChange v st =
     st\<lparr>af_password := v,
        af_fieldErrors := (af_fieldErrors st)(''password'' \<mapsto> validatePassword (af_isLogin st) v)\<rparr>"

text \<open>\<open>a || d\<close> for a string \<open>a\<close> that can be \<open>undefined\<close>.\<close>

definition or_string :: "string option \<Rightarrow> string \<Rightarrow> string" where
  "or_string a d = (case a of None \<Rightarrow> d | Some s \<Rightarrow> if truthy s then s else d)"

text \<open>\<open>err.response?.data?.errors?.[0]?.msg\<close>\<close>

definition first_error_msg :: "err_response option \<Rightarrow> string option" where
  "first_error_msg e =
     (case e of
        None \<Rightarrow> None
      | Some r \<Rightarrow>
          (case errors r of
             None \<Rightarrow> None
           | Some [] \<Rightarrow> None
           | Some (x # xs) \<Rightarrow> Some (msg x)))"

text \<open>\<open>err.response?.data?.message\<close>\<close>

definition response_message :: "err_response option \<Rightarrow> string option" where
  "response_message e = (case e of None \<Rightarrow> None | Some r \<Rightarrow> message r)"

definition auth_error_msg :: "err_response option \<Rightarrow> string" where
  "auth_error_msg e = or_string (first_error_msg e) (or_string (response_message e) ''Auth failed'')"

text \<open>\<open>handleAuthSuccess\<close>: \<open>setUserLoaded(true); loadTasks();\<close>, the list not awaited.\<close>

definition handleAuthSuccess :: "server \<Rightarrow> app \<Rightarrow> task list http_result \<times> app" where
  "handleAuthSuccess srv st = loadTasks_issue srv (st\<lparr>userLoaded := True\<rparr>)"

definition submit :: "server \<Rightarrow> app \<Rightarrow> app" where
  "submit srv st =
     (let emailErr = validateEmail (af_email st);
          passwordErr = validatePassword (af_isLogin st) (af_password st);
          st1 = st\<lparr>af_fieldErrors := [''email'' \<mapsto> emailErr, ''password'' \<mapsto> passwordErr]\<rparr>
      in if truthy emailErr \<or> truthy passwordErr then st1
         else
           (case (if af_isLogin st then doLogin else doSignup) srv (af_email st) (af_password st)
                   (st1\<lparr>af_loading := True\<rparr>) of
              (Resolved tok, st2) \<Rightarrow>
                (case handleAuthSuccess srv
                        (showToast ''Logged in successfully'' ''success'' (setItem tok st2)) of
                   (res, st3) \<Rightarrow> loadTasks_settle res (st3\<lparr>af_loading := False\<rparr>))
            | (Rejected e, st2) \<Rightarrow>
                (showToast (auth_error_msg e) ''danger''
                   (st2\<lparr>af_fieldErrors := (af_fieldErrors st2)(''form'' \<mapsto> auth_error_msg e)\<rparr>))
                \<lparr>af_loading := False\<rparr>))"

subsection \<open>App\<close>

text \<open>The first effect, run once when \<open>App\<close> is mounted.\<close>

definition mount :: "server \<Rightarrow> app \<Rightarrow> app" where
  "mount srv st =
     (let present = (case ls_token st of None \<Rightarrow> False | Some t \<Rightarrow> truthy t);
          st1 = st\<lparr>userLoaded := present\<rparr>
      in if present then loadTasks srv st1 else st1)"

text \<open>\<open>errors.forEach(x => newField[x.path] = x.msg)\<close>\<close>

fun forEach_newField :: "field_error list \<Rightarrow> (string \<rightharpoonup> string) \<Rightarrow> (string \<rightharpoonup> string)" where
  "forEach_newField [] newField = newField"
| "forEach_newField (x # xs) newField = forEach_newField xs (newField(path x \<mapsto> msg x))"

text \<open>\<open>err.response.data.errors || []\<close>: an array, also an empty one, is truthy.\<close>

definition errors_or_empty :: "err_response \<Rightarrow> field_error list" where
  "errors_or_empty r = (case errors r of None \<Rightarrow> [] | Some es \<Rightarrow> es)"

definition handleSubmit_request :: "app \<Rightarrow> request" where
  "handleSubmit_request st =
     (case editingTask st of
        Some t \<Rightarrow>
          mk_request PUT (''/tasks/'' @ task_id t) []
            (TaskFields (title st) (description st) (task_status t))
      | None \<Rightarrow>
          mk_request POST ''/tasks'' [] (TaskFields (title st) (description st) ''pending''))"

definition handleSubmit :: "server \<Rightarrow> app \<Rightarrow> app" where
  "handleSubmit srv st =
     (case issue (write_reply srv) (handleSubmit_request st) (st\<lparr>fieldErrors := Map.empty\<rparr>) of
        (Resolved u, st1) \<Rightarrow>
          loadTasks srv
            (showToast (case editingTask st of Some t \<Rightarrow> ''Task updated'' | None \<Rightarrow> ''Task added'')
               ''success''
               (st1\<lparr>title := [], description := [], editingTask := None\<rparr>))
      | (Rejected e, st1) \<Rightarrow>
          (case e of
             None \<Rightarrow> showToast ''Request failed'' ''danger'' st1
           | Some r \<Rightarrow>
               if status r = 400
               then showToast ''Fix the form errors'' ''danger''
                      (st1\<lparr>fieldErrors := forEach_newField (errors_or_empty r) Map.empty\<rparr>)
               else if status r = 401
               then showToast ''Session expired'' ''danger'' ((removeItem st1)\<lparr>userLoaded := False\<rparr>)
               else showToast ''Request failed'' ''danger'' st1))"

definition handleEdit :: "task \<Rightarrow> app \<Rightarrow> app" where
  "handleEdit t st =
     st\<lparr>editingTask := Some t, title := task_title t, description := task_description t,
        fieldErrors := Map.empty\<rparr>"

text \<open>\<open>{ ...task, status: task.status==='pending'?'done':'pending' }\<close>\<close>

definition toggled :: "'a task_scheme \<Rightarrow> 'a task_scheme" where
  "toggled t = t\<lparr>task_status := (if task_status t = ''pending'' then ''done'' else ''pending'')\<rparr>"

definition toggleStatus_request :: "task \<Rightarrow> request" where
  "toggleStatus_request t = mk_request PUT (''/tasks/'' @ task_id t) [] (TaskObject (toggled t))"

definition toggleStatus :: "server \<Rightarrow> task \<Rightarrow> app \<Rightarrow> app" where
  "toggleStatus srv t st =
     (case issue (write_reply srv) (toggleStatus_request t) st of
        (Resolved u, st1) \<Rightarrow> loadTasks srv st1
      | (Rejected e, st1) \<Rightarrow> showToast ''Update failed'' ''danger'' st1)"

definition confirmDelete :: "string \<Rightarrow> app \<Rightarrow> app" where
  "confirmDelete i st = st\<lparr>deleteTaskId := Some i, showDeleteModal := True\<rparr>"

text \<open>\<open>`/tasks/${deleteTaskId}`\<close>, where \<open>deleteTaskId\<close> is \<open>null\<close> until a delete is asked for.\<close>

definition handleDeleteConfirm_request :: "app \<Rightarrow> request" where
  "handleDeleteConfirm_request st =
     mk_request DELETE
       (''/tasks/'' @ (case deleteTaskId st of None \<Rightarrow> ''null'' | Some i \<Rightarrow> i)) [] NoBody"

definition handleDeleteConfirm :: "server \<Rightarrow> app \<Rightarrow> app" where
  "handleDeleteConfirm srv st =
     (case issue (write_reply srv) (handleDeleteConfirm_request st) st of
        (Resolved u, st1) \<Rightarrow>
          (case loadTasks_issue srv st1 of
             (res, st2) \<Rightarrow>
               loadTasks_settle res
                 ((showToast ''Task deleted'' ''success'' st2)
                    \<lparr>showDeleteModal := False, deleteTaskId := None\<rparr>))
      | (Rejected e, st1) \<Rightarrow>
          (showToast ''Delete failed'' ''danger'' st1)
            \<lparr>showDeleteModal := False, deleteTaskId := None\<rparr>)"

definition logout :: "app \<Rightarrow> app" where
  "logout st =
     showToast ''Logged out'' ''success'' ((removeItem st)\<lparr>userLoaded := False, tasks := []\<rparr>)"

subsection \<open>What the forms show\<close>

text \<open>
  An input with \<open>isInvalid={!!fieldErrors.f}\<close> and the feedback \<open>{fieldErrors.f}\<close> shows the
  message stored under \<open>f\<close> when there is one and it is not empty.
\<close>

definition invalid_feedback :: "(string \<rightharpoonup> string) \<Rightarrow> string \<Rightarrow> string option" where
  "invalid_feedback errs f =
     (case errs f of None \<Rightarrow> None | Some m \<Rightarrow> if truthy m then Some m else None)"

text \<open>
  The task form, rendered in the task view, has the inputs \<open>title\<close> and \<open>description\<close>. The
  auth form, rendered in the auth view, has the inputs \<open>email\<close> and \<open>password\<close> and, above
  its buttons, the line \<open>{fieldErrors.form && <div>{fieldErrors.form}</div>}\<close>.
\<close>

definition task_form_feedback :: "app \<Rightarrow> string \<Rightarrow> string option" where
  "task_form_feedback st f =
     (if render st = TaskView \<and> f \<in> set [''title'', ''description'']
      then invalid_feedback (fieldErrors st) f else None)"

definition auth_form_feedback :: "app \<Rightarrow> string \<Rightarrow> string option" where
  "auth_form_feedback st f =
     (if render st = AuthView \<and> f \<in> set [''email'', ''password'']
      then invalid_feedback (af_fieldErrors st) f else None)"

definition auth_form_error :: "app \<Rightarrow> string option" where
  "auth_form_error st =
     (if render st = AuthView then invalid_feedback (af_fieldErrors st) ''form'' else None)"

section \<open>Scheduling: calls, replies, renders and effects\<close>

subsection \<open>Requests in flight\<close>

text \<open>
  A request in flight, with the position it was sent at, its reply, and the handler that
  awaits it. \<open>handleSubmit\<close> keeps the \<open>editingTask\<close> of the render it was created in.
\<close>

datatype job =
    AuthJob nat "string http_result"
  | SubmitJob nat "task option" "unit http_result"
  | ToggleJob nat "unit http_result"
  | DeleteJob nat "unit http_result"
  | LoadJob nat "task list http_result"

text \<open>\<open>track f\<close> runs \<open>f\<close>, which sends one request, and records that it is now in flight.\<close>

definition track :: "(app \<Rightarrow> 'a \<times> app) \<Rightarrow> app \<Rightarrow> (nat \<times> 'a) \<times> app" where
  "track f st =
     (case f st of
        (res, st1) \<Rightarrow>
          ((length (sent st), res), st1\<lparr>events := events st1 @ [Issued (length (sent st))]\<rparr>))"

definition settled :: "nat \<Rightarrow> app \<Rightarrow> app" where
  "settled n st = st\<lparr>events := events st @ [Settled n]\<rparr>"

subsection \<open>The handlers, cut at their await\<close>

definition loadTasks_start :: "server \<Rightarrow> app \<Rightarrow> job list \<times> app" where
  "loadTasks_start srv st =
     (case track (loadTasks_issue srv) st of ((n, res), st1) \<Rightarrow> ([LoadJob n res], st1))"

definition submit_start :: "server \<Rightarrow> app \<Rightarrow> job list \<times> app" where
  "submit_start srv st =
     (let emailErr = validateEmail (af_email st);
          passwordErr = validatePassword (af_isLogin st) (af_password st);
          st1 = st\<lparr>af_fieldErrors := [''email'' \<mapsto> emailErr, ''password'' \<mapsto> passwordErr]\<rparr>
      in if truthy emailErr \<or> truthy passwordErr then ([], st1)
         else
           (case track ((if af_isLogin st then doLogin else doSignup) srv (af_email st)
                          (af_password st))
                   (st1\<lparr>af_loading := True\<rparr>) of
              ((n, res), st2) \<Rightarrow> ([AuthJob n res], st2)))"

definition submit_resume :: "server \<Rightarrow> string http_result \<Rightarrow> app \<Rightarrow> job list \<times> app" where
  "submit_resume srv res st =
     (case res of
        Resolved tok \<Rightarrow>
          (case track (handleAuthSuccess srv)
                  (showToast ''Logged in successfully'' ''success'' (setItem tok st)) of
             ((n, r), st1) \<Rightarrow> ([LoadJob n r], st1\<lparr>af_loading := False\<rparr>))
      | Rejected e \<Rightarrow>
          ([], (showToast (auth_error_msg e) ''danger''
                  (st\<lparr>af_fieldErrors := (af_fieldErrors st)(''form'' \<mapsto> auth_error_msg e)\<rparr>))
               \<lparr>af_loading := False\<rparr>))"

definition mount_start :: "server \<Rightarrow> app \<Rightarrow> job list \<times> app" where
  "mount_start srv st =
     (let present = (case ls_token st of None \<Rightarrow> False | Some t \<Rightarrow> truthy t);
          st1 = st\<lparr>userLoaded := present\<rparr>
      in if present then loadTasks_start srv st1 else ([], st1))"

definition handleSubmit_start :: "server \<Rightarrow> app \<Rightarrow> job list \<times> app" where
  "handleSubmit_start srv st =
     (case track (issue (write_reply srv) (handleSubmit_request st))
             (st\<lparr>fieldErrors := Map.empty\<rparr>) of
        ((n, res), st1) \<Rightarrow> ([SubmitJob n (editingTask st) res], st1))"

definition handleSubmit_resume ::
  "server \<Rightarrow> task option \<Rightarrow> unit http_result \<Rightarrow> app \<Rightarrow> job list \<times> app" where
  "handleSubmit_resume srv editing res st =
     (case res of
        Resolved u \<Rightarrow>
          loadTasks_start srv
            (showToast (case editing of Some t \<Rightarrow> ''Task updated'' | None \<Rightarrow> ''Task added'')
               ''success''
               (st\<lparr>title := [], description := [], editingTask := None\<rparr>))
      | Rejected e \<Rightarrow>
          ([], case e of
                 None \<Rightarrow> showToast ''Request failed'' ''danger'' st
               | Some r \<Rightarrow>
                   if status r = 400
                   then showToast ''Fix the form errors'' ''danger''
                          (st\<lparr>fieldErrors := forEach_newField (errors_or_empty r) Map.empty\<rparr>)
                   else if status r = 401
                   then showToast ''Session expired'' ''danger''
                          ((removeItem st)\<lparr>userLoaded := False\<rparr>)
                   else showToast ''Request failed'' ''danger'' st))"

definition toggleStatus_start :: "server \<Rightarrow> task \<Rightarrow> app \<Rightarrow> job list \<times> app" where
  "toggleStatus_start srv t st =
     (case track (issue (write_reply srv) (toggleStatus_request t)) st of
        ((n, res), st1) \<Rightarrow> ([ToggleJob n res], st1))"

definition toggleStatus_resume :: "server \<Rightarrow> unit http_result \<Rightarrow> app \<Rightarrow> job list \<times> app" where
  "toggleStatus_resume srv res st =
     (case res of
        Resolved u \<Rightarrow> loadTasks_start srv st
      | Rejected e \<Rightarrow> ([], showToast ''Update failed'' ''danger'' st))"

definition handleDeleteConfirm_start :: "server \<Rightarrow> app \<Rightarrow> job list \<times> app" where
  "handleDeleteConfirm_start srv st =
     (case track (issue (write_reply srv) (handleDeleteConfirm_request st)) st of
        ((n, res), st1) \<Rightarrow> ([DeleteJob n res], st1))"

definition handleDeleteConfirm_resume ::
  "server \<Rightarrow> unit http_result \<Rightarrow> app \<Rightarrow> job list \<times> app" where
  "handleDeleteConfirm_resume srv res st =
     (case res of
        Resolved u \<Rightarrow>
          (case loadTasks_start srv st of
             (jobs, st1) \<Rightarrow>
               (jobs, (showToast ''Task deleted'' ''success'' st1)
                        \<lparr>showDeleteModal := False, deleteTaskId := None\<rparr>))
      | Rejected e \<Rightarrow>
          ([], (showToast ''Delete failed'' ''danger'' st)
                 \<lparr>showDeleteModal := False, deleteTaskId := None\<rparr>))"

subsection \<open>User actions\<close>

text \<open>
  What the user can do that reaches storage, the network or a named handler. Typing into
  the title and description inputs, cancelling an edit and closing the toast or the
  modal only set state variables of \<open>App\<close> and are left out. \<open>Mount\<close> is the page being
  loaded.
\<close>

datatype action =
    Mount
  | EmailChange string
  | PasswordChange string
  | SwitchMode
  | Submit
  | Search
  | FilterQChange string
  | FilterStatusChange string
  | TaskSubmit
  | Edit task
  | Toggle task
  | AskDelete string
  | DeleteConfirm
  | Logout

text \<open>What runs when the action happens, up to the first \<open>await\<close>.\<close>

fun start :: "server \<Rightarrow> action \<Rightarrow> app \<Rightarrow> job list \<times> app" where
  "start srv Mount st = mount_start srv st"
| "start srv (EmailChange v) st = ([], handleEmailChange v st)"
| "start srv (PasswordChange v) st = ([], handlePasswordChange v st)"
| "start srv SwitchMode st = ([], st\<lparr>af_isLogin := \<not> af_isLogin st\<rparr>)"
| "start srv Submit st = submit_start srv st"
| "start srv Search st = loadTasks_start srv st"
| "start srv (FilterQChange v) st = ([], st\<lparr>filterQ := v\<rparr>)"
| "start srv (FilterStatusChange v) st = ([], st\<lparr>filterStatus := v\<rparr>)"
| "start srv TaskSubmit st = handleSubmit_start srv st"
| "start srv (Edit t) st = ([], handleEdit t st)"
| "start srv (Toggle t) st = toggleStatus_start srv t st"
| "start srv (AskDelete i) st = ([], confirmDelete i st)"
| "start srv DeleteConfirm st = handleDeleteConfirm_start srv st"
| "start srv Logout st = ([], logout st)"

text \<open>What runs when the reply of a request in flight arrives.\<close>

fun resume :: "server \<Rightarrow> job \<Rightarrow> app \<Rightarrow> job list \<times> app" where
  "resume srv (AuthJob n res) st = submit_resume srv res (settled n st)"
| "resume srv (SubmitJob n editing res) st = handleSubmit_resume srv editing res (settled n st)"
| "resume srv (ToggleJob n res) st = toggleStatus_resume srv res (settled n st)"
| "resume srv (DeleteJob n res) st = handleDeleteConfirm_resume srv res (settled n st)"
| "resume srv (LoadJob n res) st = ([], loadTasks_settle res (settled n st))"

subsection \<open>Renders and the second effect\<close>

text \<open>
  The state variables as \<open>useState\<close> initialises them, for \<open>AuthForm\<close> (whenever it is
  mounted: it is rendered only while \<open>userLoaded\<close> is false) and for the whole page.
\<close>

definition authForm_initial :: "app \<Rightarrow> app" where
  "authForm_initial st =
     st\<lparr>af_isLogin := True, af_email := [], af_password := [], af_fieldErrors := Map.empty,
        af_loading := False\<rparr>"

definition page_load :: "app \<Rightarrow> app" where
  "page_load st =
     authForm_initial
       (st\<lparr>userLoaded := False, tasks := [], filterQ := [], filterStatus := [], title := [],
           description := [], editingTask := None, fieldErrors := Map.empty,
           toast := \<lparr>toast_show = False, toast_msg = [], toast_variant = ''success''\<rparr>,
           showDeleteModal := False, deleteTaskId := None\<rparr>)"

text \<open>The dependencies of the second effect: \<open>[filterQ, filterStatus, userLoaded]\<close>.\<close>

definition effect_deps :: "app \<Rightarrow> string \<times> string \<times> bool" where
  "effect_deps st = (filterQ st, filterStatus st, userLoaded st)"

text \<open>
  A render after some code has run, given the dependencies at the render before. If
  \<open>userLoaded\<close> has turned false, \<open>AuthForm\<close> is mounted afresh. If a dependency of the
  second effect has changed, the effect runs: \<open>if(userLoaded) loadTasks()\<close>, which puts a
  task-list request in flight.
\<close>

definition rerender :: "server \<Rightarrow> string \<times> string \<times> bool \<Rightarrow> app \<Rightarrow> job list \<times> app" where
  "rerender srv prev st =
     (let st1 = (if snd (snd prev) \<and> \<not> userLoaded st then authForm_initial st else st)
      in if effect_deps st1 = prev then ([], st1)
         else if userLoaded st1 then loadTasks_start srv st1
         else ([], st1))"

text \<open>
  \<open>weight\<close> bounds the replies a request in flight can lead to: its own, and that of the
  task list reloaded after it (twice after a login, by the handler and by the effect).
\<close>

fun weight :: "job \<Rightarrow> nat" where
  "weight (AuthJob n res) = 3"
| "weight (LoadJob n res) = 1"
| "weight j = 2"

text \<open>
  The event loop: while replies are in flight, the next one to arrive is handed to its
  handler, and the page is rendered again. A render, with the effect it runs, comes
  right after the code that changed the state, before the next reply: a reply takes a
  round trip to the server.
\<close>

function run :: "server \<Rightarrow> string \<times> string \<times> bool \<Rightarrow> job list \<Rightarrow> app \<Rightarrow> app" where
  "run srv prev jobs st =
     (if jobs = [] then st
      else
        (case resume srv (jobs ! (arrives srv (events st) mod length jobs)) st of
           (new, st1) \<Rightarrow>
             (case rerender srv prev st1 of
                (eff, st2) \<Rightarrow>
                  run srv (effect_deps st1)
                    (take (arrives srv (events st) mod length jobs) jobs @
                     drop (Suc (arrives srv (events st) mod length jobs)) jobs @ new @ eff)
                    st2)))"
  by pat_completeness auto
termination run
proof (relation "measure (\<lambda>(srv, prev, jobs, st).
    2 * sum_list (map weight jobs) + (if prev = effect_deps st then 0 else 1))", goal_cases)
  case 1
  show ?case by simp
next
  case (2 srv prev jobs st new st1 eff st2)
  let ?i = "arrives srv (events st) mod length jobs"
  let ?j = "jobs ! ?i"
  let ?rest = "take ?i jobs @ drop (Suc ?i) jobs"
  have load: "sum_list (map weight js) = 1 \<and> effect_deps s' = effect_deps s"
    if "loadTasks_start srv s = (js, s')" for s js s'
    using that
    by (auto simp: loadTasks_start_def track_def loadTasks_issue_def issue_def Let_def
        effect_deps_def split: prod.splits)
  have settle: "effect_deps (loadTasks_settle res s) = effect_deps s \<or>
      \<not> userLoaded (loadTasks_settle res s)" for res s
    by (cases res) (simp_all add: loadTasks_settle_def Let_def effect_deps_def showToast_def)
  have r: "resume srv ?j st = (new, st1)" using 2(2) by simp
  have e: "rerender srv prev st1 = (eff, st2)" using 2(3) by simp
  have ro: "(case ?j of
        AuthJob n r \<Rightarrow> sum_list (map weight new) + 2 \<le> weight ?j
      | _ \<Rightarrow> sum_list (map weight new) + 1 \<le> weight ?j \<and>
               (effect_deps st1 = effect_deps st \<or> \<not> userLoaded st1))"
  proof (cases ?j)
    case (AuthJob n res)
    with r show ?thesis
      by (cases res)
        (auto simp: submit_resume_def track_def handleAuthSuccess_def loadTasks_issue_def
          split: prod.splits)
  next
    case (SubmitJob n editing res)
    with r show ?thesis
      by (cases res)
        (auto simp: handleSubmit_resume_def settled_def effect_deps_def showToast_def
          removeItem_def dest!: load split: option.splits if_splits)
  next
    case (ToggleJob n res)
    with r show ?thesis
      by (cases res)
        (auto simp: toggleStatus_resume_def settled_def effect_deps_def showToast_def
          dest!: load)
  next
    case (DeleteJob n res)
    with r show ?thesis
      by (cases res)
        (auto simp: handleDeleteConfirm_resume_def settled_def effect_deps_def showToast_def
          dest!: load split: prod.splits)
  next
    case (LoadJob n res)
    with r settle [of res "settled n st"] show ?thesis
      by (auto simp: settled_def effect_deps_def)
  qed
  have eo: "effect_deps st2 = effect_deps st1 \<and>
      (eff = [] \<or> (sum_list (map weight eff) = 1 \<and> effect_deps st1 \<noteq> prev \<and> userLoaded st1))"
    using e
    by (auto simp: rerender_def Let_def authForm_initial_def effect_deps_def
        dest!: load split: if_splits)
  have i: "?i < length jobs" using 2(1) by simp
  have "jobs = take ?i jobs @ ?j # drop (Suc ?i) jobs"
    using i by (rule id_take_nth_drop)
  then have "sum_list (map weight jobs) =
      sum_list (map weight (take ?i jobs @ ?j # drop (Suc ?i) jobs))"
    by simp
  then have total: "sum_list (map weight jobs) = sum_list (map weight ?rest) + weight ?j"
    by simp
  have "2 * (sum_list (map weight new) + sum_list (map weight eff)) <
      2 * weight ?j + (if prev = effect_deps st then 0 else 1)"
    using ro eo by (cases ?j) (auto simp del: sum_list_eq_0_iff split: if_splits)
  then show ?case
    using total eo by simp
qed

declare run.simps [simp del]

text \<open>
  An action from start to rest: the code that runs when it happens, the render after it,
  and the event loop until no reply is in flight. The action happens on a rendered page,
  so the second effect last ran with the dependencies of the state before; the page load
  starts from the initial state of the components, on which both effects run.
\<close>

definition perform :: "server \<Rightarrow> action \<Rightarrow> app \<Rightarrow> app" where
  "perform srv a st =
     (let st0 = (case a of Mount \<Rightarrow> page_load st | _ \<Rightarrow> st)
      in case start srv a st0 of
           (jobs, st1) \<Rightarrow>
             (case rerender srv (effect_deps st0) st1 of
                (eff, st2) \<Rightarrow> run srv (effect_deps st1) (jobs @ eff) st2))"

section \<open>Notions used to state the properties\<close>

text \<open>The requests an action sends, and the writes to the stored token it makes.\<close>

definition issued :: "server \<Rightarrow> action \<Rightarrow> app \<Rightarrow> request list" where
  "issued srv a st = drop (length (sent st)) (sent (perform srv a st))"

definition storage_ops :: "server \<Rightarrow> action \<Rightarrow> app \<Rightarrow> storage_op list" where
  "storage_ops srv a st = drop (length (ls_log st)) (ls_log (perform srv a st))"

text \<open>
  What happens on the network during an action, and the highest number of requests in
  flight at one time while a sequence of events happens, starting from \<open>n\<close> in flight.
\<close>

definition happened :: "server \<Rightarrow> action \<Rightarrow> app \<Rightarrow> event list" where
  "happened srv a st = drop (length (events st)) (events (perform srv a st))"

fun peak :: "nat \<Rightarrow> event list \<Rightarrow> nat" where
  "peak n [] = n"
| "peak n (Issued k # es) = max n (peak (Suc n) es)"
| "peak n (Settled k # es) = max n (peak (n - 1) es)"

text \<open>
  The two parts of a handler run back to back: each reply is handed over as soon as its
  request is sent, and so is that of the task list reloaded after it.
\<close>

definition back_to_back :: "server \<Rightarrow> job list \<times> app \<Rightarrow> app" where
  "back_to_back srv p =
     (case p of
        (jobs, st) \<Rightarrow>
          fold (\<lambda>j s. case resume srv j s of
                         (new, s1) \<Rightarrow> fold (\<lambda>l s2. snd (resume srv l s2)) new s1)
            jobs st)"

text \<open>The request of an auth submit, whether its inputs pass validation, and its reply.\<close>

definition submit_request :: "app \<Rightarrow> request" where
  "submit_request st =
     mk_request POST (if af_isLogin st then ''/auth/login'' else ''/auth/signup'') []
       (Credentials (af_email st) (af_password st))"

definition inputs_valid :: "app \<Rightarrow> bool" where
  "inputs_valid st =
     (validateEmail (af_email st) = [] \<and> validatePassword (af_isLogin st) (af_password st) = [])"

definition reply_to :: "(request list \<Rightarrow> request \<Rightarrow> 'a http_result) \<Rightarrow> request \<Rightarrow> app \<Rightarrow> 'a http_result" where
  "reply_to reply config st = reply (sent st) (interceptor (ls_token st) config)"

text \<open>The language of a regular expression, to say what \<open>rx_test\<close> decides.\<close>

definition conc :: "string set \<Rightarrow> string set \<Rightarrow> string set" where
  "conc A B = {xs @ ys | xs ys. xs \<in> A \<and> ys \<in> B}"

inductive_set star :: "string set \<Rightarrow> string set" for A :: "string set" where
  star_empty: "[] \<in> star A"
| star_step: "xs \<in> A \<Longrightarrow> ys \<in> star A \<Longrightarrow> xs @ ys \<in> star A"

fun lang :: "rx \<Rightarrow> string set" where
  "lang Zero = {}"
| "lang One = {[]}"
| "lang (Cls P) = {[c] | c. P c}"
| "lang (Alt r s) = lang r \<union> lang s"
| "lang (Cat r s) = conc (lang r) (lang s)"
| "lang (Star r) = star (lang r)"

text \<open>
  The shape the email pattern accepts: \<open>local@domain.tld\<close>, each of the three parts
  non-empty and free of white space and of \<open>@\<close> (the domain and the last part may hold
  further dots).
\<close>

definition email_part :: "string \<Rightarrow> bool" where
  "email_part s = (s \<noteq> [] \<and> list_all not_space_at s)"

definition email_shape :: "string \<Rightarrow> bool" where
  "email_shape v =
     (\<exists>a b c. v = a @ ''@'' @ b @ ''.'' @ c \<and> email_part a \<and> email_part b \<and> email_part c)"

text \<open>What the password rules of signup ask for.\<close>

definition strong_password :: "string \<Rightarrow> bool" where
  "strong_password v =
     (8 \<le> length v \<and> list_ex is_upper v \<and> list_ex is_lower v \<and> list_ex is_digit v \<and>
      list_ex is_special v)"

text \<open>The last entry of a \<open>path\<close> in an \<open>errors\<close> array.\<close>

definition last_msg :: "field_error list \<Rightarrow> string \<Rightarrow> string option" where
  "last_msg es p = map_of (rev (map (\<lambda>x. (path x, msg x)) es)) p"

text \<open>What a sequence of writes leaves in the \<open>token\<close> entry.\<close>

fun replay :: "storage_op list \<Rightarrow> string option \<Rightarrow> string option" where
  "replay [] v = v"
| "replay (SetItem t # ops) v = replay ops (Some t)"
| "replay (RemoveItem # ops) v = replay ops None"

text \<open>A step from \<open>st\<close> to \<open>st'\<close> that only removes the token, if it writes at all.\<close>

definition removes_only :: "app \<Rightarrow> app \<Rightarrow> bool" where
  "removes_only st st' =
     (\<exists>ops. ls_log st' = ls_log st @ ops \<and> ls_token st' = replay ops (ls_token st) \<and>
        list_all (\<lambda>x. x = RemoveItem) ops)"

text \<open>A step from \<open>st\<close> to \<open>st'\<close> that sends nothing but \<open>GET\<close> requests.\<close>

definition gets_only :: "app \<Rightarrow> app \<Rightarrow> bool" where
  "gets_only st st' = (\<exists>rs. sent st' = sent st @ rs \<and> list_all (\<lambda>r. meth r = GET) rs)"

text \<open>A request in flight other than a login or signup that has been accepted.\<close>

definition no_login :: "job \<Rightarrow> bool" where
  "no_login j = (case j of AuthJob n (Resolved t) \<Rightarrow> False | _ \<Rightarrow> True)"

definition is_load :: "job \<Rightarrow> bool" where
  "is_load j = (case j of LoadJob n res \<Rightarrow> True | _ \<Rightarrow> False)"

definition is_settled :: "event \<Rightarrow> bool" where
  "is_settled e = (case e of Settled n \<Rightarrow> True | Issued n \<Rightarrow> False)"

subsection \<open>Concrete states and servers\<close>

definition blank_toast :: toast where
  "blank_toast = \<lparr>toast_show = False, toast_msg = [], toast_variant = ''success''\<rparr>"

text \<open>A logged-in client with the token \<open>tok\<close>, no task being edited.\<close>

definition logged_in :: app where
  "logged_in =
     \<lparr>ls_token = Some ''tok'', ls_log = [], sent = [], events = [], console = [], userLoaded = True,
      tasks = [], filterQ = [], filterStatus = [], title = ''Buy milk'', description = ''2l'',
      editingTask = None, fieldErrors = Map.empty, toast = blank_toast,
      showDeleteModal = False, deleteTaskId = Some ''7'', af_isLogin = True, af_email = [],
      af_password = [], af_fieldErrors = Map.empty, af_loading = False\<rparr>"

text \<open>A client showing the login form, filled in with an email and a password.\<close>

definition logging_in :: app where
  "logging_in =
     \<lparr>ls_token = None, ls_log = [], sent = [], events = [], console = [], userLoaded = False,
      tasks = [], filterQ = [], filterStatus = [], title = [], description = [],
      editingTask = None, fieldErrors = Map.empty, toast = blank_toast,
      showDeleteModal = False, deleteTaskId = None, af_isLogin = True, af_email = ''a@b.c'',
      af_password = ''secret'', af_fieldErrors = Map.empty, af_loading = False\<rparr>"

definition task7 :: task where
  "task7 = \<lparr>task_id = ''7'', task_title = ''Buy milk'', task_description = ''2l'',
            task_status = ''pending''\<rparr>"

text \<open>
  The servers below hand replies over in the order their requests were sent. The first
  rejects every request with the given response.
\<close>

definition rejecting :: "err_response \<Rightarrow> server" where
  "rejecting r =
     \<lparr>auth_reply = (\<lambda>h q. Rejected (Some r)), tasks_reply = (\<lambda>h q. Rejected (Some r)),
      write_reply = (\<lambda>h q. Rejected (Some r)), arrives = (\<lambda>es. 0)\<rparr>"

definition plain_error :: "nat \<Rightarrow> err_response" where
  "plain_error n = \<lparr>status = n, errors = None, message = None\<rparr>"

text \<open>A validation error of the server on the field \<open>email\<close>.\<close>

definition email_taken :: err_response where
  "email_taken =
     \<lparr>status = 400, errors = Some [\<lparr>path = ''email'', msg = ''Email already registered''\<rparr>],
      message = None\<rparr>"

text \<open>A server that accepts every request: it issues the token \<open>t\<close> and lists no task.\<close>

definition accepting :: "string \<Rightarrow> server" where
  "accepting t =
     \<lparr>auth_reply = (\<lambda>h q. Resolved t), tasks_reply = (\<lambda>h q. Resolved []),
      write_reply = (\<lambda>h q. Resolved ()), arrives = (\<lambda>es. 0)\<rparr>"

text \<open>
  A server that logs in with the token \<open>t\<close> and then answers 401 to everything else, as
  for a token that it does not honour.
\<close>

definition forgetful :: "string \<Rightarrow> server" where
  "forgetful t =
     \<lparr>auth_reply = (\<lambda>h q. Resolved t),
      tasks_reply = (\<lambda>h q. Rejected (Some (plain_error 401))),
      write_reply = (\<lambda>h q. Rejected (Some (plain_error 401))), arrives = (\<lambda>es. 0)\<rparr>"

text \<open>A validation error of the server on the field \<open>title\<close>.\<close>

definition title_required :: err_response where
  "title_required =
     \<lparr>status = 400, errors = Some [\<lparr>path = ''title'', msg = ''Title is required''\<rparr>],
      message = None\<rparr>"

section \<open>Properties\<close>

subsection \<open>Validation on the concrete inputs\<close>

lemma email_abc: "validateEmail ''abc'' = ''Invalid email''"
  by (simp add: validateEmail_def truthy_def rx_test_def emailRegex_def not_space_at_def
      is_space_def code_unit_def)

lemma email_good: "validateEmail ''a@b.c'' = []"
  by (simp add: validateEmail_def truthy_def rx_test_def emailRegex_def not_space_at_def
      is_space_def code_unit_def)

lemma password_secret: "validatePassword True ''secret'' = []"
  by (simp add: validatePassword_def truthy_def)

lemma logging_in_valid: "inputs_valid logging_in"
  by (simp add: inputs_valid_def logging_in_def email_good password_secret)

subsection \<open>Field projections of the basic operations\<close>

lemma showToast_fields [simp]:
  "ls_token (showToast m v st) = ls_token st"
  "ls_log (showToast m v st) = ls_log st"
  "sent (showToast m v st) = sent st"
  "console (showToast m v st) = console st"
  "userLoaded (showToast m v st) = userLoaded st"
  "filterQ (showToast m v st) = filterQ st"
  "filterStatus (showToast m v st) = filterStatus st"
  "fieldErrors (showToast m v st) = fieldErrors st"
  "af_fieldErrors (showToast m v st) = af_fieldErrors st"
  "toast (showToast m v st) = \<lparr>toast_show = True, toast_msg = m, toast_variant = v\<rparr>"
  by (simp_all add: showToast_def)

lemma removeItem_fields [simp]:
  "ls_token (removeItem st) = None"
  "ls_log (removeItem st) = ls_log st @ [RemoveItem]"
  "sent (removeItem st) = sent st"
  "console (removeItem st) = console st"
  "userLoaded (removeItem st) = userLoaded st"
  "filterQ (removeItem st) = filterQ st"
  "filterStatus (removeItem st) = filterStatus st"
  "fieldErrors (removeItem st) = fieldErrors st"
  "af_fieldErrors (removeItem st) = af_fieldErrors st"
  "toast (removeItem st) = toast st"
  by (simp_all add: removeItem_def)

lemma setItem_fields [simp]:
  "ls_token (setItem t st) = Some t"
  "ls_log (setItem t st) = ls_log st @ [SetItem t]"
  "sent (setItem t st) = sent st"
  "console (setItem t st) = console st"
  "userLoaded (setItem t st) = userLoaded st"
  "filterQ (setItem t st) = filterQ st"
  "filterStatus (setItem t st) = filterStatus st"
  "fieldErrors (setItem t st) = fieldErrors st"
  "af_fieldErrors (setItem t st) = af_fieldErrors st"
  "toast (setItem t st) = toast st"
  by (simp_all add: setItem_def)

lemma issue_fst [simp]: "fst (issue reply config st) = reply_to reply config st"
  by (simp add: issue_def reply_to_def Let_def)

lemma issue_snd [simp]:
  "snd (issue reply config st) = st\<lparr>sent := sent st @ [interceptor (ls_token st) config]\<rparr>"
  by (simp add: issue_def Let_def)

lemma issue_eq:
  "issue reply config st =
     (reply_to reply config st, st\<lparr>sent := sent st @ [interceptor (ls_token st) config]\<rparr>)"
  by (simp add: issue_def reply_to_def Let_def)

lemma loadTasks_settle_fields:
  "sent (loadTasks_settle res st) = sent st"
  "filterQ (loadTasks_settle res st) = filterQ st"
  "filterStatus (loadTasks_settle res st) = filterStatus st"
  "fieldErrors (loadTasks_settle res st) = fieldErrors st"
  "af_fieldErrors (loadTasks_settle res st) = af_fieldErrors st"
  by (simp_all add: loadTasks_settle_def Let_def split: http_result.splits)

lemma loadTasks_eq:
  "loadTasks srv st =
     loadTasks_settle (reply_to (tasks_reply srv) (loadTasks_request st) st)
       (st\<lparr>sent := sent st @ [interceptor (ls_token st) (loadTasks_request st)]\<rparr>)"
  by (simp add: loadTasks_def loadTasks_issue_def issue_eq)

lemma sent_loadTasks:
  "sent (loadTasks srv st) = sent st @ [interceptor (ls_token st) (loadTasks_request st)]"
  by (simp add: loadTasks_eq loadTasks_settle_fields)

lemma sent_toggleStatus_nth:
  "sent (toggleStatus srv t st) ! length (sent st) = interceptor (ls_token st) (toggleStatus_request t)"
  by (simp add: toggleStatus_def issue_eq sent_loadTasks nth_append split: http_result.splits)

lemma body_interceptor [simp]: "body (interceptor tok config) = body config"
  by (simp add: interceptor_def split: option.splits)

lemma toggled_twice:
  "task_status u = ''pending'' \<or> task_status u = ''done'' \<Longrightarrow> toggled (toggled u) = u"
  by (auto simp: toggled_def)

text \<open>
  Claim C8. Toggling a task sends a \<open>PUT\<close> to \<open>/tasks/<id>\<close> whose body is the task with
  its status replaced by \<open>done\<close> when it was \<open>pending\<close> and by \<open>pending\<close> otherwise, every
  other field unchanged; for a task whose status is \<open>pending\<close> or \<open>done\<close>, toggling twice
  gives the task back.
\<close>
theorem toggle_body:
  "body (toggleStatus_request t) = TaskObject (toggled t) \<and>
   meth (toggleStatus_request t) = PUT \<and>
   url (toggleStatus_request t) = ''/tasks/'' @ task_id t \<and>
   sent (toggleStatus srv t st) ! length (sent st) = interceptor (ls_token st) (toggleStatus_request t) \<and>
   body (interceptor (ls_token st) (toggleStatus_request t)) = TaskObject (toggled t) \<and>
   task_status (toggled u) = (if task_status u = ''pending'' then ''done'' else ''pending'') \<and>
   toggled u = u\<lparr>task_status := task_status (toggled u)\<rparr> \<and>
   (task_status u = ''pending'' \<or> task_status u = ''done'' \<longrightarrow> toggled (toggled u) = u)"
proof -
  have "body (toggleStatus_request t) = TaskObject (toggled t)"
    and "meth (toggleStatus_request t) = PUT"
    and "url (toggleStatus_request t) = ''/tasks/'' @ task_id t"
    by (simp_all add: toggleStatus_request_def mk_request_def)
  moreover have "task_status (toggled u) = (if task_status u = ''pending'' then ''done'' else ''pending'')"
    and "toggled u = u\<lparr>task_status := task_status (toggled u)\<rparr>"
    by (simp_all add: toggled_def)
  ultimately show ?thesis
    using sent_toggleStatus_nth [of srv t st] toggled_twice [of u] by simp
qed

theorem toggle_body_witness:
  "task_status task7 = ''pending'' \<and> task_status (toggled task7) = ''done'' \<and>
   toggled (toggled task7) = task7"
  using toggle_body [of task7 "accepting []" logged_in task7] by (simp add: task7_def)


lemma interceptor_fields [simp]:
  "meth (interceptor tok config) = meth config"
  "url (interceptor tok config) = url config"
  "params (interceptor tok config) = params config"
  by (simp_all add: interceptor_def split: option.splits)

lemma reply_to_cong [simp]:
  "reply_to reply config (st\<lparr>fieldErrors := fe\<rparr>) = reply_to reply config st"
  "reply_to reply config (st\<lparr>af_fieldErrors := afe\<rparr>) = reply_to reply config st"
  "reply_to reply config (st\<lparr>af_loading := l\<rparr>) = reply_to reply config st"
  by (simp_all add: reply_to_def)

lemma submit_invalid:
  "truthy (validateEmail (af_email st)) \<or> truthy (validatePassword (af_isLogin st) (af_password st)) \<Longrightarrow>
   submit srv st =
     st\<lparr>af_fieldErrors := [''email'' \<mapsto> validateEmail (af_email st),
                             ''password'' \<mapsto> validatePassword (af_isLogin st) (af_password st)]\<rparr>"
  by (simp add: submit_def Let_def)

lemma doAuth_eq:
  "(if af_isLogin st then doLogin else doSignup) srv (af_email st) (af_password st) st' =
     issue (auth_reply srv) (submit_request st) st'"
  by (simp add: doLogin_def doSignup_def submit_request_def)

lemma submit_valid:
  "inputs_valid st \<Longrightarrow>
   submit srv st =
     (let st1 = st\<lparr>af_fieldErrors := [''email'' \<mapsto> [], ''password'' \<mapsto> []], af_loading := True,
                    sent := sent st @ [interceptor (ls_token st) (submit_request st)]\<rparr>
      in case reply_to (auth_reply srv) (submit_request st) st of
           Resolved tok \<Rightarrow>
             loadTasks_settle
               (reply_to (tasks_reply srv) (loadTasks_request st)
                  (showToast ''Logged in successfully'' ''success'' (setItem tok st1)))
               ((showToast ''Logged in successfully'' ''success'' (setItem tok st1))
                  \<lparr>userLoaded := True,
                   sent := sent st1 @ [interceptor (Some tok) (loadTasks_request st)],
                   af_loading := False\<rparr>)
         | Rejected e \<Rightarrow>
             (showToast (auth_error_msg e) ''danger''
                (st1\<lparr>af_fieldErrors := [''email'' \<mapsto> [], ''password'' \<mapsto> [],
                                           ''form'' \<mapsto> auth_error_msg e]\<rparr>))
             \<lparr>af_loading := False\<rparr>)"
  unfolding submit_def doAuth_eq inputs_valid_def
  by (simp add: Let_def issue_eq truthy_def handleAuthSuccess_def loadTasks_issue_def
      loadTasks_request_def showToast_def setItem_def reply_to_def
      split: http_result.splits)


lemma sent_submit:
  "sent (submit srv st) =
     sent st @
     (if inputs_valid st
      then interceptor (ls_token st) (submit_request st) #
           (case reply_to (auth_reply srv) (submit_request st) st of
              Resolved tok \<Rightarrow> [interceptor (Some tok) (loadTasks_request st)]
            | Rejected e \<Rightarrow> [])
      else [])"
proof (cases "inputs_valid st")
  case True
  then show ?thesis
    by (simp add: submit_valid Let_def loadTasks_settle_fields split: http_result.splits)
next
  case False
  then have "truthy (validateEmail (af_email st)) \<or>
             truthy (validatePassword (af_isLogin st) (af_password st))"
    by (auto simp: inputs_valid_def truthy_def)
  then show ?thesis using False by (simp add: submit_invalid)
qed

text \<open>
  Claim C6, as amended. Every request goes out through the interceptor, which reads the
  stored token at that moment: the request carries \<open>Authorization: Bearer t\<close> if and only
  if a non-empty token \<open>t\<close> is stored, and carries no \<open>Authorization\<close> header when no token
  or the empty string is stored.
\<close>
theorem bearer_header:
  "sent (snd (issue reply (mk_request m u ps b) st)) =
     sent st @ [interceptor (ls_token st) (mk_request m u ps b)] \<and>
   headers (interceptor tok (mk_request m u ps b)) ''Authorization'' =
     (case tok of None \<Rightarrow> None | Some t \<Rightarrow> if t = [] then None else Some (''Bearer '' @ t)) \<and>
   (headers (interceptor tok (mk_request m u ps b)) ''Authorization'' = Some (''Bearer '' @ t)) =
     (tok = Some t \<and> t \<noteq> [])"
  by (auto simp: interceptor_def mk_request_def truthy_def split: option.splits)

theorem bearer_header_witness:
  "headers (interceptor (Some ''tok'') (mk_request GET ''/tasks'' [] NoBody)) ''Authorization'' =
     Some ''Bearer tok'' \<and>
   headers (interceptor None (mk_request GET ''/tasks'' [] NoBody)) ''Authorization'' = None"
  using bearer_header [of "tasks_reply (accepting [])" GET "''/tasks''" "[]" NoBody logged_in "Some ''tok''" "''tok''"]
    bearer_header [of "tasks_reply (accepting [])" GET "''/tasks''" "[]" NoBody logged_in None "''tok''"]
  by simp

text \<open>
  The claim as stated fails for the empty token: a login answered with the token \<open>''\<close>
  stores it, and the task list requested next, like every later request, carries no
  \<open>Authorization\<close> header although a token is stored.
\<close>

theorem empty_token_no_header:
  "ls_token (setItem [] logging_in) = Some [] \<and>
   headers (last (sent (snd (issue (tasks_reply (accepting [])) (loadTasks_request logging_in)
     (setItem [] logging_in))))) ''Authorization'' = None \<and>
   headers (sent (submit (accepting []) logging_in) ! 1) ''Authorization'' = None"
proof -
  have "sent (submit (accepting []) logging_in) ! 1 =
      interceptor (Some []) (loadTasks_request logging_in)"
    using logging_in_valid by (simp add: sent_submit reply_to_def accepting_def logging_in_def)
  then show ?thesis
    by (simp add: interceptor_def truthy_def loadTasks_request_def mk_request_def)
qed

lemma sent_handleSubmit:
  "sent (handleSubmit srv st) =
     sent st @
     interceptor (ls_token st) (handleSubmit_request st) #
     (case reply_to (write_reply srv) (handleSubmit_request st) st of
        Resolved u \<Rightarrow> [interceptor (ls_token st) (loadTasks_request st)]
      | Rejected e \<Rightarrow> [])"
  by (simp add: handleSubmit_def issue_eq sent_loadTasks loadTasks_request_def showToast_def
      split: http_result.splits option.splits)

lemma sent_toggleStatus:
  "sent (toggleStatus srv t st) =
     sent st @
     interceptor (ls_token st) (toggleStatus_request t) #
     (case reply_to (write_reply srv) (toggleStatus_request t) st of
        Resolved u \<Rightarrow> [interceptor (ls_token st) (loadTasks_request st)]
      | Rejected e \<Rightarrow> [])"
  by (simp add: toggleStatus_def issue_eq sent_loadTasks loadTasks_request_def
      split: http_result.splits)

lemma sent_handleDeleteConfirm:
  "sent (handleDeleteConfirm srv st) =
     sent st @
     interceptor (ls_token st) (handleDeleteConfirm_request st) #
     (case reply_to (write_reply srv) (handleDeleteConfirm_request st) st of
        Resolved u \<Rightarrow> [interceptor (ls_token st) (loadTasks_request st)]
      | Rejected e \<Rightarrow> [])"
  by (simp add: handleDeleteConfirm_def issue_eq loadTasks_issue_def loadTasks_settle_fields
      loadTasks_request_def split: http_result.splits)

subsection \<open>The email pattern\<close>

lemma conc_iff: "w \<in> conc A B \<longleftrightarrow> (\<exists>u v. w = u @ v \<and> u \<in> A \<and> v \<in> B)"
  by (auto simp: conc_def)

lemma conc_Nil: "[] \<in> conc A B \<longleftrightarrow> [] \<in> A \<and> [] \<in> B"
  by (auto simp: conc_iff)

lemma conc_Cons:
  "c # w \<in> conc A B \<longleftrightarrow>
     (\<exists>u v. w = u @ v \<and> c # u \<in> A \<and> v \<in> B) \<or> ([] \<in> A \<and> c # w \<in> B)"
  by (auto simp: conc_iff Cons_eq_append_conv)

lemma star_Cons_split:
  assumes "x \<in> star A" and "x = c # w"
  shows "\<exists>u v. w = u @ v \<and> c # u \<in> A \<and> v \<in> star A"
  using assms
proof (induction rule: star.induct)
  case star_empty
  then show ?case by simp
next
  case (star_step xs ys)
  show ?case
  proof (cases xs)
    case Nil
    with star_step show ?thesis by simp
  next
    case (Cons d u)
    with star_step.prems have "d = c" "w = u @ ys" by simp_all
    with Cons star_step.hyps show ?thesis by blast
  qed
qed

lemma star_Cons:
  "c # w \<in> star A \<longleftrightarrow> (\<exists>u v. w = u @ v \<and> c # u \<in> A \<and> v \<in> star A)"
proof
  assume "c # w \<in> star A"
  then show "\<exists>u v. w = u @ v \<and> c # u \<in> A \<and> v \<in> star A"
    by (rule star_Cons_split) simp
next
  assume "\<exists>u v. w = u @ v \<and> c # u \<in> A \<and> v \<in> star A"
  then obtain u v where "w = u @ v" "c # u \<in> A" "v \<in> star A" by blast
  then show "c # w \<in> star A"
    using star_step [of "c # u" A v] by simp
qed

lemma nullable_lang: "nullable r \<longleftrightarrow> [] \<in> lang r"
  by (induction r) (simp_all add: conc_Nil star_empty)

lemma lang_deriv: "w \<in> lang (deriv c r) \<longleftrightarrow> c # w \<in> lang r"
proof (induction r arbitrary: w)
  case (Cat r s)
  have left: "w \<in> conc (lang (deriv c r)) (lang s) \<longleftrightarrow>
      (\<exists>u v. w = u @ v \<and> c # u \<in> lang r \<and> v \<in> lang s)"
    by (simp add: conc_iff Cat.IH(1))
  show ?case
    by (simp add: left Cat.IH(2) conc_Cons nullable_lang)
next
  case (Star r)
  have "w \<in> conc (lang (deriv c r)) (star (lang r)) \<longleftrightarrow>
      (\<exists>u v. w = u @ v \<and> c # u \<in> lang r \<and> v \<in> star (lang r))"
    by (simp add: conc_iff Star.IH)
  then show ?case
    by (simp add: star_Cons)
qed auto

lemma rx_test_lang: "rx_test r s \<longleftrightarrow> s \<in> lang r"
  unfolding rx_test_def
  by (induction s arbitrary: r) (simp_all add: nullable_lang lang_deriv)

lemma star_class: "w \<in> star {[c] | c. P c} \<longleftrightarrow> list_all P w"
proof
  assume "w \<in> star {[c] | c. P c}"
  then show "list_all P w"
    by (induction rule: star.induct) auto
next
  assume "list_all P w"
  then show "w \<in> star {[c] | c. P c}"
  proof (induction w)
    case Nil
    show ?case by (rule star_empty)
  next
    case (Cons c w)
    then have "[c] \<in> {[c] | c. P c}" "w \<in> star {[c] | c. P c}" by auto
    then have "[c] @ w \<in> star {[c] | c. P c}" by (rule star_step)
    then show ?case by simp
  qed
qed

lemma lang_Plus_class: "w \<in> lang (Plus (Cls P)) \<longleftrightarrow> w \<noteq> [] \<and> list_all P w"
  by (cases w) (auto simp: conc_Nil conc_Cons star_class)

lemma conc_char: "w \<in> conc {[d]} B \<longleftrightarrow> (\<exists>v. w = d # v \<and> v \<in> B)"
  by (auto simp: conc_iff)

lemma emailRegex_lang:
  "v \<in> lang emailRegex \<longleftrightarrow>
     (\<exists>a r1. v = a @ r1 \<and> email_part a \<and>
        (\<exists>r2. r1 = CHR ''@'' # r2 \<and>
          (\<exists>b r3. r2 = b @ r3 \<and> email_part b \<and>
            (\<exists>c. r3 = CHR ''.'' # c \<and> email_part c))))"
proof -
  have part: "conc {[c] | c. not_space_at c} (star {[c] | c. not_space_at c}) = {w. email_part w}"
    using lang_Plus_class [of _ not_space_at] by (auto simp: email_part_def)
  have "lang emailRegex =
      conc {w. email_part w}
        (conc {''@''} (conc {w. email_part w} (conc {''.''} {w. email_part w})))"
    by (simp add: emailRegex_def part)
  then show ?thesis
    by (simp add: conc_char conc_iff)
qed

lemma emailRegex_shape: "rx_test emailRegex v \<longleftrightarrow> email_shape v"
proof -
  have "v \<in> lang emailRegex \<longleftrightarrow> email_shape v"
  proof
    assume "v \<in> lang emailRegex"
    then obtain a b c where "v = a @ CHR ''@'' # b @ CHR ''.'' # c"
        "email_part a" "email_part b" "email_part c"
      by (auto simp: emailRegex_lang)
    then show "email_shape v"
      by (auto simp: email_shape_def)
  next
    assume "email_shape v"
    then obtain a b c where "v = a @ CHR ''@'' # b @ CHR ''.'' # c"
        "email_part a" "email_part b" "email_part c"
      by (auto simp: email_shape_def)
    then show "v \<in> lang emailRegex"
      unfolding emailRegex_lang by blast
  qed
  then show ?thesis by (simp add: rx_test_lang)
qed

subsection \<open>Errors and toasts\<close>

lemma err_status_plain: "err_status (Some (plain_error n)) = Some n"
  by (simp add: err_status_def plain_error_def)

lemma unauthorized_load:
  assumes "reply_to (tasks_reply srv) (loadTasks_request st) st = Rejected e"
    and "err_status e = Some 401"
  shows "ls_token (loadTasks srv st) = None \<and> render (loadTasks srv st) = AuthView \<and>
    ls_log (loadTasks srv st) = ls_log st @ [RemoveItem]"
  using assms by (simp add: loadTasks_eq loadTasks_settle_def Let_def render_def)

lemma unauthorized_handleSubmit:
  assumes "reply_to (write_reply srv) (handleSubmit_request st) st = Rejected e"
    and "err_status e = Some 401"
  shows "ls_token (handleSubmit srv st) = None \<and> render (handleSubmit srv st) = AuthView \<and>
    ls_log (handleSubmit srv st) = ls_log st @ [RemoveItem]"
  using assms
  by (auto simp: handleSubmit_def issue_eq render_def err_status_def split: option.splits)

lemma auth_error_msg_truthy: "auth_error_msg e \<noteq> []"
  by (simp add: auth_error_msg_def or_string_def truthy_def split: option.splits)

text \<open>
  Claim C3, as amended. A rejected login, signup, create, update, status toggle or delete
  request always ends in a toast of variant \<open>danger\<close>. A rejected task list is always
  written to the console, and is shown as a toast only when its status is 401; otherwise
  the toast is left as it was.
\<close>

theorem errors_toasted:
  "(inputs_valid st \<and> reply_to (auth_reply srv) (submit_request st) st = Rejected e \<longrightarrow>
      toast (submit srv st) =
        \<lparr>toast_show = True, toast_msg = auth_error_msg e, toast_variant = ''danger''\<rparr> \<and>
      auth_error_msg e \<noteq> []) \<and>
   (reply_to (write_reply srv) (handleSubmit_request st) st = Rejected e \<longrightarrow>
      toast (handleSubmit srv st) =
        \<lparr>toast_show = True,
         toast_msg = (if err_status e = Some 400 then ''Fix the form errors''
                      else if err_status e = Some 401 then ''Session expired''
                      else ''Request failed''),
         toast_variant = ''danger''\<rparr>) \<and>
   (reply_to (write_reply srv) (toggleStatus_request t) st = Rejected e \<longrightarrow>
      toast (toggleStatus srv t st) =
        \<lparr>toast_show = True, toast_msg = ''Update failed'', toast_variant = ''danger''\<rparr>) \<and>
   (reply_to (write_reply srv) (handleDeleteConfirm_request st) st = Rejected e \<longrightarrow>
      toast (handleDeleteConfirm srv st) =
        \<lparr>toast_show = True, toast_msg = ''Delete failed'', toast_variant = ''danger''\<rparr>) \<and>
   (reply_to (tasks_reply srv) (loadTasks_request st) st = Rejected e \<longrightarrow>
      console (loadTasks srv st) = console st @ [e] \<and>
      toast (loadTasks srv st) =
        (if err_status e = Some 401
         then \<lparr>toast_show = True, toast_msg = ''Session expired, please login'',
               toast_variant = ''danger''\<rparr>
         else toast st))"
proof -
  have "toast (submit srv st) =
        \<lparr>toast_show = True, toast_msg = auth_error_msg e, toast_variant = ''danger''\<rparr>"
    if "inputs_valid st" "reply_to (auth_reply srv) (submit_request st) st = Rejected e"
    using that by (simp add: submit_valid Let_def)
  moreover have "toast (handleSubmit srv st) =
        \<lparr>toast_show = True,
         toast_msg = (if err_status e = Some 400 then ''Fix the form errors''
                      else if err_status e = Some 401 then ''Session expired''
                      else ''Request failed''),
         toast_variant = ''danger''\<rparr>"
    if "reply_to (write_reply srv) (handleSubmit_request st) st = Rejected e"
    using that by (simp add: handleSubmit_def issue_eq err_status_def split: option.splits)
  moreover have "toast (toggleStatus srv t st) =
        \<lparr>toast_show = True, toast_msg = ''Update failed'', toast_variant = ''danger''\<rparr>"
    if "reply_to (write_reply srv) (toggleStatus_request t) st = Rejected e"
    using that by (simp add: toggleStatus_def issue_eq)
  moreover have "toast (handleDeleteConfirm srv st) =
        \<lparr>toast_show = True, toast_msg = ''Delete failed'', toast_variant = ''danger''\<rparr>"
    if "reply_to (write_reply srv) (handleDeleteConfirm_request st) st = Rejected e"
    using that by (simp add: handleDeleteConfirm_def issue_eq)
  moreover have "console (loadTasks srv st) = console st @ [e] \<and>
      toast (loadTasks srv st) =
        (if err_status e = Some 401
         then \<lparr>toast_show = True, toast_msg = ''Session expired, please login'',
               toast_variant = ''danger''\<rparr>
         else toast st)"
    if "reply_to (tasks_reply srv) (loadTasks_request st) st = Rejected e"
    using that by (simp add: loadTasks_eq loadTasks_settle_def Let_def)
  ultimately show ?thesis
    using auth_error_msg_truthy [of e] by blast
qed

theorem errors_toasted_witness:
  "reply_to (write_reply (rejecting (plain_error 500))) (toggleStatus_request task7) logged_in =
     Rejected (Some (plain_error 500)) \<and>
   toast_msg (toast (toggleStatus (rejecting (plain_error 500)) task7 logged_in)) = ''Update failed'' \<and>
   toast_msg (toast (handleSubmit (rejecting (plain_error 500)) logged_in)) = ''Request failed'' \<and>
   toast_msg (toast (handleDeleteConfirm (rejecting (plain_error 500)) logged_in)) = ''Delete failed'' \<and>
   toast_msg (toast (loadTasks (rejecting (plain_error 401)) logged_in)) =
     ''Session expired, please login'' \<and>
   toast_msg (toast (submit (rejecting (plain_error 500)) logging_in)) = ''Auth failed''"
proof -
  note valid = logging_in_valid
  have msg: "auth_error_msg (Some (plain_error 500)) = ''Auth failed''"
    by (simp add: auth_error_msg_def or_string_def first_error_msg_def response_message_def
        plain_error_def)
  show ?thesis
    using errors_toasted [of logged_in "rejecting (plain_error 500)" "Some (plain_error 500)" task7]
      errors_toasted [of logged_in "rejecting (plain_error 401)" "Some (plain_error 401)" task7]
      errors_toasted [of logging_in "rejecting (plain_error 500)" "Some (plain_error 500)" task7]
    by (simp add: reply_to_def rejecting_def valid msg err_status_plain)
qed

text \<open>
  The claim as stated fails for the task list: answered with status 500, \<open>loadTasks\<close> logs
  the error to the console and shows no toast.
\<close>

theorem load_500_no_toast:
  "toast_show (toast logged_in) = False \<and>
   toast (loadTasks (rejecting (plain_error 500)) logged_in) = toast logged_in \<and>
   console (loadTasks (rejecting (plain_error 500)) logged_in) = [Some (plain_error 500)]"
  by (simp add: loadTasks_eq loadTasks_settle_def Let_def reply_to_def rejecting_def
      plain_error_def err_status_def logged_in_def blank_toast_def)

text \<open>
  Claim C1 at a failing input. With the token \<open>tok\<close> stored and the server answering 401,
  a status toggle or a confirmed delete leaves the token stored and the task view on
  screen, writes nothing to storage and only shows the toast \<open>Update failed\<close> or
  \<open>Delete failed\<close>. The claim asks for the token to be cleared and the login view to
  return, which is what the task list and the task form do on a 401
  (\<open>unauthorized_load\<close>, \<open>unauthorized_handleSubmit\<close>).
\<close>

theorem toggle_401_keeps_session:
  "ls_token (toggleStatus (rejecting (plain_error 401)) task7 logged_in) = Some ''tok'' \<and>
   ls_log (toggleStatus (rejecting (plain_error 401)) task7 logged_in) = [] \<and>
   render (toggleStatus (rejecting (plain_error 401)) task7 logged_in) = TaskView \<and>
   toast (toggleStatus (rejecting (plain_error 401)) task7 logged_in) =
     \<lparr>toast_show = True, toast_msg = ''Update failed'', toast_variant = ''danger''\<rparr> \<and>
   ls_token (handleDeleteConfirm (rejecting (plain_error 401)) logged_in) = Some ''tok'' \<and>
   ls_log (handleDeleteConfirm (rejecting (plain_error 401)) logged_in) = [] \<and>
   render (handleDeleteConfirm (rejecting (plain_error 401)) logged_in) = TaskView \<and>
   toast (handleDeleteConfirm (rejecting (plain_error 401)) logged_in) =
     \<lparr>toast_show = True, toast_msg = ''Delete failed'', toast_variant = ''danger''\<rparr>"
  by (simp add: toggleStatus_def handleDeleteConfirm_def issue_eq reply_to_def rejecting_def
      render_def logged_in_def)

subsection \<open>Field errors and validation\<close>

lemma forEach_newField_eq:
  "forEach_newField es m = m ++ map_of (rev (map (\<lambda>x. (path x, msg x)) es))"
proof (induction es arbitrary: m)
  case Nil
  show ?case by simp
next
  case (Cons x es)
  have "m(path x \<mapsto> msg x) = m ++ [path x \<mapsto> msg x]" by simp
  then show ?case
    by (simp add: Cons.IH map_add_assoc del: map_add_upd)
qed

lemma forEach_newField_empty: "forEach_newField es Map.empty = last_msg es"
  by (simp add: forEach_newField_eq last_msg_def fun_eq_iff)

lemma last_msg_distinct:
  assumes "distinct (map path es)" and "x \<in> set es"
  shows "last_msg es (path x) = Some (msg x)"
proof -
  have "distinct (map fst (rev (map (\<lambda>x. (path x, msg x)) es)))"
    using assms(1) by (simp add: rev_map [symmetric] comp_def distinct_rev)
  moreover have "(path x, msg x) \<in> set (rev (map (\<lambda>x. (path x, msg x)) es))"
    using assms(2) by auto
  ultimately show ?thesis
    unfolding last_msg_def by (rule map_of_is_SomeI)
qed

text \<open>
  Claim C5, as amended. Validation asks for more than presence. \<open>validateEmail\<close> accepts
  exactly the strings of the shape \<open>local@domain.tld\<close>. \<open>validatePassword\<close> accepts every
  non-empty password in login mode, and in signup mode exactly the passwords of at least
  8 characters with an uppercase letter, a lowercase letter, a digit and one of
  \<open>@$!%*?&\<close>.
\<close>

theorem validation_accepts:
  "(validateEmail v = []) = email_shape v \<and>
   (validatePassword True v = []) = (v \<noteq> []) \<and>
   (validatePassword False v = []) = strong_password v"
proof -
  have "email_shape v \<Longrightarrow> v \<noteq> []"
    by (auto simp: email_shape_def)
  then have "(validateEmail v = []) = email_shape v"
    by (auto simp: validateEmail_def truthy_def emailRegex_shape)
  moreover have "(validatePassword True v = []) = (v \<noteq> [])"
    by (simp add: validatePassword_def truthy_def)
  moreover have "(validatePassword False v = []) = strong_password v"
    by (auto simp: validatePassword_def truthy_def strong_password_def class_test_def)
  ultimately show ?thesis by simp
qed

theorem validation_accepts_witness:
  "email_shape ''a@b.c'' \<and> \<not> email_shape ''abc'' \<and> strong_password ''Abcdefg1!'' \<and>
   validatePassword True ''abc'' = []"
proof -
  note good = email_good
  have strong: "validatePassword False ''Abcdefg1!'' = []"
    by (simp add: validatePassword_def truthy_def class_test_def is_upper_def is_lower_def
        is_digit_def is_special_def code_unit_def)
  show ?thesis
    using validation_accepts [of "''a@b.c''"] validation_accepts [of "''abc''"]
      validation_accepts [of "''Abcdefg1!''"]
    by (simp add: good strong email_abc)
qed

text \<open>
  The claim as stated fails at \<open>abc\<close>: it is not empty, is no email address and is too
  short a password for signup.
\<close>

theorem nonempty_inputs_rejected:
  "''abc'' \<noteq> [] \<and> validateEmail ''abc'' = ''Invalid email'' \<and>
   validatePassword False ''abc'' = ''Password must be at least 8 characters''"
  by (simp add: email_abc validatePassword_def truthy_def)

subsection \<open>Writes to the stored token\<close>

lemma replay_append: "replay (xs @ ys) v = replay ys (replay xs v)"
  by (induction xs v rule: replay.induct) simp_all

lemma removes_only_refl [simp]: "removes_only st st"
  by (simp add: removes_only_def)

lemma removes_only_trans:
  "removes_only st st1 \<Longrightarrow> removes_only st1 st2 \<Longrightarrow> removes_only st st2"
  by (auto simp: removes_only_def replay_append)

lemma removes_only_update [simp]:
  "removes_only st (st'\<lparr>sent := rs\<rparr>) = removes_only st st'"
  "removes_only st (st'\<lparr>console := es\<rparr>) = removes_only st st'"
  "removes_only st (st'\<lparr>userLoaded := b\<rparr>) = removes_only st st'"
  "removes_only st (st'\<lparr>tasks := ts\<rparr>) = removes_only st st'"
  "removes_only st (st'\<lparr>filterQ := s\<rparr>) = removes_only st st'"
  "removes_only st (st'\<lparr>filterStatus := s\<rparr>) = removes_only st st'"
  "removes_only st (st'\<lparr>title := s\<rparr>) = removes_only st st'"
  "removes_only st (st'\<lparr>description := s\<rparr>) = removes_only st st'"
  "removes_only st (st'\<lparr>editingTask := et\<rparr>) = removes_only st st'"
  "removes_only st (st'\<lparr>fieldErrors := fe\<rparr>) = removes_only st st'"
  "removes_only st (st'\<lparr>toast := tt\<rparr>) = removes_only st st'"
  "removes_only st (st'\<lparr>showDeleteModal := b\<rparr>) = removes_only st st'"
  "removes_only st (st'\<lparr>deleteTaskId := d\<rparr>) = removes_only st st'"
  "removes_only st (st'\<lparr>af_isLogin := b\<rparr>) = removes_only st st'"
  "removes_only st (st'\<lparr>af_email := s\<rparr>) = removes_only st st'"
  "removes_only st (st'\<lparr>af_password := s\<rparr>) = removes_only st st'"
  "removes_only st (st'\<lparr>af_fieldErrors := fe\<rparr>) = removes_only st st'"
  "removes_only st (st'\<lparr>af_loading := b\<rparr>) = removes_only st st'"
  by (simp_all add: removes_only_def)

lemma removes_only_showToast [simp]:
  "removes_only st (showToast m v st') = removes_only st st'"
  by (simp add: showToast_def)

lemma removes_only_removeItem:
  "removes_only st st' \<Longrightarrow> removes_only st (removeItem st')"
proof -
  assume "removes_only st st'"
  then obtain ops where "ls_log st' = ls_log st @ ops" "ls_token st' = replay ops (ls_token st)"
      "list_all (\<lambda>x. x = RemoveItem) ops"
    by (auto simp: removes_only_def)
  then have "ls_log (removeItem st') = ls_log st @ (ops @ [RemoveItem]) \<and>
      ls_token (removeItem st') = replay (ops @ [RemoveItem]) (ls_token st) \<and>
      list_all (\<lambda>x. x = RemoveItem) (ops @ [RemoveItem])"
    by (simp add: replay_append)
  then show ?thesis
    unfolding removes_only_def by blast
qed

lemma removes_only_settle:
  "removes_only st st' \<Longrightarrow> removes_only st (loadTasks_settle res st')"
  by (cases res) (simp_all add: loadTasks_settle_def Let_def removes_only_removeItem)

lemma removes_only_loadTasks:
  "removes_only st st' \<Longrightarrow> removes_only st (loadTasks srv st')"
  by (simp add: loadTasks_eq removes_only_settle)

lemma removes_only_same:
  "ls_log st2 = ls_log st1 \<Longrightarrow> ls_token st2 = ls_token st1 \<Longrightarrow> removes_only st1 st2"
  by (simp add: removes_only_def)

lemma removes_only_ops:
  assumes "removes_only st st'"
  shows "ls_log st' = ls_log st @ drop (length (ls_log st)) (ls_log st') \<and>
    ls_token st' = replay (drop (length (ls_log st)) (ls_log st')) (ls_token st) \<and>
    SetItem t \<notin> set (drop (length (ls_log st)) (ls_log st'))"
  using assms by (auto simp: removes_only_def list_all_iff)

subsection \<open>The event loop\<close>

lemma run_Nil [simp]: "run srv prev [] st = st"
  by (subst run.simps) simp

lemma run_step:
  assumes "jobs \<noteq> []" and "i = arrives srv (events st) mod length jobs"
    and "resume srv (jobs ! i) st = (new, st1)" and "rerender srv prev st1 = (eff, st2)"
  shows "run srv prev jobs st =
    run srv (effect_deps st1) (take i jobs @ drop (Suc i) jobs @ new @ eff) st2"
  using assms by (subst run.simps) simp

lemma run_single:
  assumes "resume srv j st = (new, st1)" and "rerender srv prev st1 = (eff, st2)"
  shows "run srv prev [j] st = run srv (effect_deps st1) (new @ eff) st2"
  using run_step [of "[j]" 0 srv st new st1 prev eff st2] assms by simp

text \<open>
  A relation between states that every reply and every render keeps, for the requests in
  flight that satisfy \<open>Q\<close>, is kept by the event loop.
\<close>

lemma run_rel:
  assumes "\<And>s. R s s"
    and "\<And>s1 s2 s3. R s1 s2 \<Longrightarrow> R s2 s3 \<Longrightarrow> R s1 s3"
    and "\<And>j s new s1. Q j \<Longrightarrow> resume srv j s = (new, s1) \<Longrightarrow> R s s1 \<and> list_all Q new"
    and "\<And>prev s eff s1. rerender srv prev s = (eff, s1) \<Longrightarrow> R s s1 \<and> list_all Q eff"
    and "list_all Q jobs"
  shows "R st (run srv prev jobs st)"
  using assms
proof (induction srv prev jobs st rule: run.induct)
  case (1 srv prev jobs st)
  show ?case
  proof (cases "jobs = []")
    case True
    then show ?thesis using "1.prems"(1) by simp
  next
    case False
    let ?i = "arrives srv (events st) mod length jobs"
    obtain new st1 where r: "resume srv (jobs ! ?i) st = (new, st1)"
      by (cases "resume srv (jobs ! ?i) st")
    obtain eff st2 where e: "rerender srv prev st1 = (eff, st2)"
      by (cases "rerender srv prev st1")
    have i: "?i < length jobs" using False by simp
    then have "Q (jobs ! ?i)" using "1.prems"(5) by (simp add: list_all_length)
    from "1.prems"(3) [OF this r] have s1: "R st st1" "list_all Q new" by simp_all
    from "1.prems"(4) [OF e] have s2: "R st1 st2" "list_all Q eff" by simp_all
    have rest: "list_all Q (take ?i jobs @ drop (Suc ?i) jobs @ new @ eff)"
      using "1.prems"(5) s1(2) s2(2)
      by (auto simp: list_all_iff dest: in_set_takeD in_set_dropD)
    have "R st2 (run srv (effect_deps st1) (take ?i jobs @ drop (Suc ?i) jobs @ new @ eff) st2)"
      using "1.IH" [OF False r [symmetric] e [symmetric] "1.prems"(1-4) rest] .
    then have "R st (run srv (effect_deps st1) (take ?i jobs @ drop (Suc ?i) jobs @ new @ eff) st2)"
      using "1.prems"(2) s1(1) s2(1) by blast
    then show ?thesis
      using run_step [OF False refl r e] by simp
  qed
qed

subsection \<open>The parts of the handlers\<close>

lemma track_eq:
  "track f st =
     ((length (sent st), fst (f st)),
      (snd (f st))\<lparr>events := events (snd (f st)) @ [Issued (length (sent st))]\<rparr>)"
  by (simp add: track_def split: prod.splits)

lemma loadTasks_start_eq:
  "loadTasks_start srv st =
     ([LoadJob (length (sent st)) (reply_to (tasks_reply srv) (loadTasks_request st) st)],
      st\<lparr>sent := sent st @ [interceptor (ls_token st) (loadTasks_request st)],
         events := events st @ [Issued (length (sent st))]\<rparr>)"
  by (simp add: loadTasks_start_def track_eq loadTasks_issue_def issue_eq)

lemma settled_fields [simp]:
  "ls_token (settled n st) = ls_token st"
  "ls_log (settled n st) = ls_log st"
  "sent (settled n st) = sent st"
  "events (settled n st) = events st @ [Settled n]"
  "userLoaded (settled n st) = userLoaded st"
  "filterQ (settled n st) = filterQ st"
  "filterStatus (settled n st) = filterStatus st"
  by (simp_all add: settled_def)

lemma authForm_initial_fields [simp]:
  "ls_token (authForm_initial st) = ls_token st"
  "ls_log (authForm_initial st) = ls_log st"
  "sent (authForm_initial st) = sent st"
  "events (authForm_initial st) = events st"
  "userLoaded (authForm_initial st) = userLoaded st"
  "filterQ (authForm_initial st) = filterQ st"
  "filterStatus (authForm_initial st) = filterStatus st"
  by (simp_all add: authForm_initial_def)

lemma page_load_fields [simp]:
  "ls_token (page_load st) = ls_token st"
  "ls_log (page_load st) = ls_log st"
  "sent (page_load st) = sent st"
  "events (page_load st) = events st"
  by (simp_all add: page_load_def)

lemma rerender_same: "effect_deps st = prev \<Longrightarrow> rerender srv prev st = ([], st)"
  by (auto simp: rerender_def effect_deps_def Let_def)

lemma rerender_logged_out:
  "\<not> userLoaded st \<Longrightarrow>
   rerender srv prev st = ([], if snd (snd prev) then authForm_initial st else st)"
  by (simp add: rerender_def Let_def authForm_initial_def)

lemma rerender_cases:
  "rerender srv prev st = (eff, st') \<Longrightarrow>
     (eff = [] \<and> (st' = st \<or> st' = authForm_initial st)) \<or>
     (userLoaded st \<and> effect_deps st \<noteq> prev \<and> (eff, st') = loadTasks_start srv st)"
  by (auto simp: rerender_def Let_def split: if_splits)

subsection \<open>Requests sent by the event loop\<close>

lemma gets_only_refl [simp]: "gets_only st st"
  by (simp add: gets_only_def)

lemma gets_only_trans: "gets_only s1 s2 \<Longrightarrow> gets_only s2 s3 \<Longrightarrow> gets_only s1 s3"
  by (auto simp: gets_only_def)

lemma gets_only_same: "sent st' = sent st \<Longrightarrow> gets_only st st'"
  by (simp add: gets_only_def)

lemma gets_only_loadTasks_start:
  "loadTasks_start srv st = (jobs, st') \<Longrightarrow> sent st1 = sent st \<Longrightarrow> gets_only st1 st'"
  by (auto simp: loadTasks_start_eq gets_only_def loadTasks_request_def mk_request_def)

lemma gets_only_resume:
  assumes "resume srv j st = (new, st1)"
  shows "gets_only st st1"
proof (cases j)
  case (AuthJob n res)
  with assms show ?thesis
    by (cases res)
      (auto simp: submit_resume_def track_eq handleAuthSuccess_def loadTasks_issue_def issue_eq
        gets_only_def loadTasks_request_def mk_request_def)
next
  case (SubmitJob n editing res)
  with assms show ?thesis
    by (cases res)
      (auto simp: handleSubmit_resume_def loadTasks_start_eq gets_only_def loadTasks_request_def
        mk_request_def split: option.splits)
next
  case (ToggleJob n res)
  with assms show ?thesis
    by (cases res)
      (auto simp: toggleStatus_resume_def loadTasks_start_eq gets_only_def loadTasks_request_def
        mk_request_def)
next
  case (DeleteJob n res)
  with assms show ?thesis
    by (cases res)
      (auto simp: handleDeleteConfirm_resume_def loadTasks_start_eq gets_only_def
        loadTasks_request_def mk_request_def)
next
  case (LoadJob n res)
  with assms show ?thesis
    by (auto simp: gets_only_def loadTasks_settle_fields)
qed

lemma gets_only_rerender: "rerender srv prev st = (eff, st') \<Longrightarrow> gets_only st st'"
  by (drule rerender_cases)
    (auto simp: gets_only_same dest: gets_only_loadTasks_start [OF sym refl])

lemma gets_only_run: "gets_only st (run srv prev jobs st)"
proof (rule run_rel [where Q = "\<lambda>j. True"])
  show "list_all (\<lambda>j. True) jobs" by (simp add: list_all_iff)
qed (auto simp: gets_only_resume gets_only_rerender list_all_iff intro: gets_only_trans)

subsection \<open>Requests sent by an action\<close>

lemma submit_start_invalid:
  "\<not> inputs_valid st \<Longrightarrow>
   submit_start srv st =
     ([], st\<lparr>af_fieldErrors := [''email'' \<mapsto> validateEmail (af_email st),
                                 ''password'' \<mapsto> validatePassword (af_isLogin st) (af_password st)]\<rparr>)"
  by (auto simp: submit_start_def Let_def inputs_valid_def truthy_def)

lemma submit_start_valid:
  "inputs_valid st \<Longrightarrow>
   submit_start srv st =
     ([AuthJob (length (sent st)) (reply_to (auth_reply srv) (submit_request st) st)],
      st\<lparr>af_fieldErrors := [''email'' \<mapsto> [], ''password'' \<mapsto> []], af_loading := True,
         sent := sent st @ [interceptor (ls_token st) (submit_request st)],
         events := events st @ [Issued (length (sent st))]\<rparr>)"
  unfolding submit_start_def doAuth_eq inputs_valid_def
  by (simp add: Let_def truthy_def track_eq issue_eq reply_to_def)

lemma handleSubmit_start_eq:
  "handleSubmit_start srv st =
     ([SubmitJob (length (sent st)) (editingTask st)
         (reply_to (write_reply srv) (handleSubmit_request st) st)],
      st\<lparr>fieldErrors := Map.empty,
         sent := sent st @ [interceptor (ls_token st) (handleSubmit_request st)],
         events := events st @ [Issued (length (sent st))]\<rparr>)"
  by (simp add: handleSubmit_start_def track_eq issue_eq)

lemma toggleStatus_start_eq:
  "toggleStatus_start srv t st =
     ([ToggleJob (length (sent st)) (reply_to (write_reply srv) (toggleStatus_request t) st)],
      st\<lparr>sent := sent st @ [interceptor (ls_token st) (toggleStatus_request t)],
         events := events st @ [Issued (length (sent st))]\<rparr>)"
  by (simp add: toggleStatus_start_def track_eq issue_eq)

lemma handleDeleteConfirm_start_eq:
  "handleDeleteConfirm_start srv st =
     ([DeleteJob (length (sent st))
         (reply_to (write_reply srv) (handleDeleteConfirm_request st) st)],
      st\<lparr>sent := sent st @ [interceptor (ls_token st) (handleDeleteConfirm_request st)],
         events := events st @ [Issued (length (sent st))]\<rparr>)"
  by (simp add: handleDeleteConfirm_start_def track_eq issue_eq)

text \<open>The state an action starts from, and what its first part sends.\<close>

lemma sent_start:
  "\<exists>rs. sent (snd (start srv a (case a of Mount \<Rightarrow> page_load st | _ \<Rightarrow> st))) = sent st @ rs \<and>
     list_all (\<lambda>r. meth r = POST \<and> url r = ''/tasks'' \<longrightarrow>
        body r = TaskFields (title st) (description st) ''pending'') rs"
proof (cases a)
  case Mount
  then show ?thesis
    by (simp add: mount_start_def Let_def loadTasks_start_eq loadTasks_request_def mk_request_def)
next
  case Submit
  then show ?thesis
    by (cases "inputs_valid st")
      (simp_all add: submit_start_valid submit_start_invalid submit_request_def mk_request_def)
next
  case Search
  then show ?thesis
    by (simp add: loadTasks_start_eq loadTasks_request_def mk_request_def)
next
  case TaskSubmit
  then show ?thesis
    by (simp add: handleSubmit_start_eq handleSubmit_request_def mk_request_def
        split: option.splits)
next
  case (Toggle t)
  then show ?thesis
    by (simp add: toggleStatus_start_eq toggleStatus_request_def mk_request_def)
next
  case DeleteConfirm
  then show ?thesis
    by (simp add: handleDeleteConfirm_start_eq handleDeleteConfirm_request_def mk_request_def)
qed (simp_all add: handleEmailChange_def handlePasswordChange_def handleEdit_def
      confirmDelete_def logout_def)

lemma issued_perform:
  "\<exists>rs gs. issued srv a st = rs @ gs \<and>
     sent (snd (start srv a (case a of Mount \<Rightarrow> page_load st | _ \<Rightarrow> st))) = sent st @ rs \<and>
     list_all (\<lambda>r. meth r = GET) gs"
proof -
  let ?st0 = "case a of Mount \<Rightarrow> page_load st | _ \<Rightarrow> st"
  obtain jobs st1 where s: "start srv a ?st0 = (jobs, st1)"
    by (cases "start srv a ?st0")
  obtain eff st2 where e: "rerender srv (effect_deps ?st0) st1 = (eff, st2)"
    by (cases "rerender srv (effect_deps ?st0) st1")
  have p: "perform srv a st = run srv (effect_deps st1) (jobs @ eff) st2"
    using s e by (simp add: perform_def Let_def)
  obtain rs where rs: "sent st1 = sent st @ rs"
    using sent_start [of srv a st] s by auto
  have "gets_only st1 (perform srv a st)"
    unfolding p using gets_only_trans [OF gets_only_rerender [OF e] gets_only_run] .
  then obtain gs where "sent (perform srv a st) = sent st1 @ gs" "list_all (\<lambda>r. meth r = GET) gs"
    by (auto simp: gets_only_def)
  with rs s show ?thesis
    by (auto simp: issued_def)
qed

lemma perform_start_only:
  assumes "start srv a st = ([], st1)" and "effect_deps st1 = effect_deps st" and "a \<noteq> Mount"
  shows "perform srv a st = st1"
  using assms by (cases a) (simp_all add: perform_def Let_def rerender_same)

text \<open>
  Claim C9. Submitting the task form with no task being edited sends a \<open>POST\<close> to \<open>/tasks\<close>
  whose body has status \<open>pending\<close>; and whatever the action, the state and the server, every
  \<open>POST\<close> to \<open>/tasks\<close> the client sends has the body \<open>{title, description, status: 'pending'}\<close>.
\<close>

theorem create_is_pending:
  "(editingTask st = None \<longrightarrow>
      issued srv TaskSubmit st \<noteq> [] \<and>
      meth (hd (issued srv TaskSubmit st)) = POST \<and>
      url (hd (issued srv TaskSubmit st)) = ''/tasks'' \<and>
      body (hd (issued srv TaskSubmit st)) = TaskFields (title st) (description st) ''pending'') \<and>
   (\<forall>r \<in> set (issued srv a st). meth r = POST \<and> url r = ''/tasks'' \<longrightarrow>
      body r = TaskFields (title st) (description st) ''pending'')"
proof -
  obtain rs gs where i: "issued srv a st = rs @ gs"
      "sent (snd (start srv a (case a of Mount \<Rightarrow> page_load st | _ \<Rightarrow> st))) = sent st @ rs"
      "list_all (\<lambda>r. meth r = GET) gs"
    using issued_perform [of srv a st] by blast
  obtain rs' where "sent (snd (start srv a (case a of Mount \<Rightarrow> page_load st | _ \<Rightarrow> st))) =
        sent st @ rs'"
      "list_all (\<lambda>r. meth r = POST \<and> url r = ''/tasks'' \<longrightarrow>
        body r = TaskFields (title st) (description st) ''pending'') rs'"
    using sent_start [of srv a st] by blast
  with i have all: "\<forall>r \<in> set (issued srv a st). meth r = POST \<and> url r = ''/tasks'' \<longrightarrow>
      body r = TaskFields (title st) (description st) ''pending''"
    by (auto simp: list_all_iff)
  obtain rs2 gs2 where j: "issued srv TaskSubmit st = rs2 @ gs2"
      "sent (snd (start srv TaskSubmit st)) = sent st @ rs2"
    using issued_perform [of srv TaskSubmit st] by auto
  then have "rs2 = [interceptor (ls_token st) (handleSubmit_request st)]"
    by (simp add: handleSubmit_start_eq)
  with j have "issued srv TaskSubmit st \<noteq> []"
    "hd (issued srv TaskSubmit st) = interceptor (ls_token st) (handleSubmit_request st)"
    by simp_all
  then show ?thesis using all
    by (simp add: handleSubmit_request_def mk_request_def)
qed

theorem create_is_pending_witness:
  "editingTask logged_in = None \<and>
   body (hd (issued (accepting []) TaskSubmit logged_in)) = TaskFields ''Buy milk'' ''2l'' ''pending'' \<and>
   hd (issued (accepting []) TaskSubmit logged_in) \<in> set (issued (accepting []) TaskSubmit logged_in)"
  using create_is_pending [of logged_in "accepting []" TaskSubmit]
  by (simp add: logged_in_def)

text \<open>
  Claim C10. When the email or the password fails validation, an auth submit only sets
  the two computed field errors: no request is sent. A request is sent exactly when both
  validations return the empty string.
\<close>

theorem submit_validation_gate:
  "(truthy (validateEmail (af_email st)) \<or>
    truthy (validatePassword (af_isLogin st) (af_password st)) \<longrightarrow>
      submit srv st =
        st\<lparr>af_fieldErrors := [''email'' \<mapsto> validateEmail (af_email st),
                                ''password'' \<mapsto> validatePassword (af_isLogin st) (af_password st)]\<rparr> \<and>
      sent (submit srv st) = sent st \<and> issued srv Submit st = []) \<and>
   (sent (submit srv st) \<noteq> sent st) =
     (validateEmail (af_email st) = [] \<and> validatePassword (af_isLogin st) (af_password st) = [])"
proof -
  have gate: "(sent (submit srv st) \<noteq> sent st) = inputs_valid st"
    by (simp add: sent_submit)
  have "issued srv Submit st = []"
    if "truthy (validateEmail (af_email st)) \<or>
        truthy (validatePassword (af_isLogin st) (af_password st))"
  proof -
    from that have "\<not> inputs_valid st"
      by (auto simp: inputs_valid_def truthy_def)
    then have "perform srv Submit st =
        st\<lparr>af_fieldErrors := [''email'' \<mapsto> validateEmail (af_email st),
                                ''password'' \<mapsto> validatePassword (af_isLogin st) (af_password st)]\<rparr>"
      by (intro perform_start_only) (simp_all add: submit_start_invalid effect_deps_def)
    then show ?thesis by (simp add: issued_def)
  qed
  then show ?thesis
    using gate by (auto simp: submit_invalid inputs_valid_def)
qed

theorem submit_validation_gate_witness:
  "truthy (validateEmail (af_email (logging_in\<lparr>af_email := ''abc''\<rparr>))) \<and>
   sent (submit (accepting ''t'') (logging_in\<lparr>af_email := ''abc''\<rparr>)) = [] \<and>
   af_fieldErrors (submit (accepting ''t'') (logging_in\<lparr>af_email := ''abc''\<rparr>)) ''email'' =
     Some ''Invalid email'' \<and>
   sent (submit (accepting ''t'') logging_in) \<noteq> sent logging_in"
proof -
  note bad = email_abc and good = email_good and pw = password_secret
  show ?thesis
    using submit_validation_gate [of "logging_in\<lparr>af_email := ''abc''\<rparr>" "accepting ''t''"]
      submit_validation_gate [of logging_in "accepting ''t''"]
    by (simp add: logging_in_def bad good pw truthy_def)
qed

subsection \<open>Writes to the stored token by the event loop\<close>

lemma removes_only_events [simp]:
  "removes_only st (st'\<lparr>events := es\<rparr>) = removes_only st st'"
  "removes_only st (settled n st') = removes_only st st'"
  "removes_only st (authForm_initial st') = removes_only st st'"
  by (simp_all add: removes_only_def)

lemma removes_only_page_load [simp]: "removes_only st (page_load st)"
  by (simp add: removes_only_def)

lemma removes_only_resume:
  assumes "no_login j" and "resume srv j s = (new, s1)"
  shows "removes_only s s1 \<and> list_all no_login new"
proof (cases j)
  case (AuthJob n res)
  with assms show ?thesis
    by (cases res) (auto simp: no_login_def submit_resume_def)
next
  case (SubmitJob n editing res)
  with assms show ?thesis
    by (cases res)
      (auto simp: handleSubmit_resume_def loadTasks_start_eq no_login_def
        removes_only_removeItem split: option.splits)
next
  case (ToggleJob n res)
  with assms show ?thesis
    by (cases res) (auto simp: toggleStatus_resume_def loadTasks_start_eq no_login_def)
next
  case (DeleteJob n res)
  with assms show ?thesis
    by (cases res) (auto simp: handleDeleteConfirm_resume_def loadTasks_start_eq no_login_def)
next
  case (LoadJob n res)
  with assms show ?thesis
    by (auto simp: removes_only_settle)
qed

lemma removes_only_rerender:
  "rerender srv prev s = (eff, s1) \<Longrightarrow> removes_only s s1 \<and> list_all no_login eff"
  by (drule rerender_cases) (auto simp: loadTasks_start_eq no_login_def)

lemma removes_only_run:
  "list_all no_login jobs \<Longrightarrow> removes_only st (run srv prev jobs st)"
  by (rule run_rel [where Q = no_login])
    (auto simp: removes_only_resume removes_only_rerender intro: removes_only_trans)

lemma removes_only_start:
  assumes "\<not> (a = Submit \<and> inputs_valid st \<and>
       (\<exists>t. reply_to (auth_reply srv) (submit_request st) st = Resolved t))"
    and "start srv a (case a of Mount \<Rightarrow> page_load st | _ \<Rightarrow> st) = (jobs, st1)"
  shows "removes_only st st1 \<and> list_all no_login jobs"
proof (cases a)
  case Mount
  with assms(2) show ?thesis
    by (auto simp: mount_start_def Let_def loadTasks_start_eq no_login_def split: if_splits)
next
  case Submit
  with assms show ?thesis
    by (cases "inputs_valid st"; cases "reply_to (auth_reply srv) (submit_request st) st")
      (auto simp: submit_start_valid submit_start_invalid no_login_def)
next
  case Search
  with assms(2) show ?thesis
    by (auto simp: loadTasks_start_eq no_login_def)
next
  case TaskSubmit
  with assms(2) show ?thesis
    by (auto simp: handleSubmit_start_eq no_login_def)
next
  case (Toggle t)
  with assms(2) show ?thesis
    by (auto simp: toggleStatus_start_eq no_login_def)
next
  case DeleteConfirm
  with assms(2) show ?thesis
    by (auto simp: handleDeleteConfirm_start_eq no_login_def)
next
  case Logout
  with assms(2) show ?thesis
    by (auto simp: logout_def removes_only_removeItem)
qed (insert assms(2), auto simp: handleEmailChange_def handlePasswordChange_def handleEdit_def
      confirmDelete_def)

lemma removes_only_perform:
  assumes "\<not> (a = Submit \<and> inputs_valid st \<and>
       (\<exists>t. reply_to (auth_reply srv) (submit_request st) st = Resolved t))"
  shows "removes_only st (perform srv a st)"
proof -
  let ?st0 = "case a of Mount \<Rightarrow> page_load st | _ \<Rightarrow> st"
  obtain jobs st1 where s: "start srv a ?st0 = (jobs, st1)"
    by (cases "start srv a ?st0")
  obtain eff st2 where e: "rerender srv (effect_deps ?st0) st1 = (eff, st2)"
    by (cases "rerender srv (effect_deps ?st0) st1")
  have p: "perform srv a st = run srv (effect_deps st1) (jobs @ eff) st2"
    using s e by (simp add: perform_def Let_def)
  note a = removes_only_start [OF assms s] and b = removes_only_rerender [OF e]
  then have "removes_only st2 (run srv (effect_deps st1) (jobs @ eff) st2)"
    by (intro removes_only_run) simp
  with a b show ?thesis
    unfolding p by (blast intro: removes_only_trans)
qed

lemma perform_submit_sets:
  assumes "inputs_valid st" and "reply_to (auth_reply srv) (submit_request st) st = Resolved t"
  shows "\<exists>st1. ls_log st1 = ls_log st @ [SetItem t] \<and> ls_token st1 = Some t \<and>
     removes_only st1 (perform srv Submit st)"
proof -
  let ?n = "length (sent st)"
  let ?s1 = "st\<lparr>af_fieldErrors := [''email'' \<mapsto> [], ''password'' \<mapsto> []], af_loading := True,
         sent := sent st @ [interceptor (ls_token st) (submit_request st)],
         events := events st @ [Issued ?n]\<rparr>"
  have s: "start srv Submit st = ([AuthJob ?n (Resolved t)], ?s1)"
    using assms by (simp add: submit_start_valid)
  have e: "rerender srv (effect_deps st) ?s1 = ([], ?s1)"
    by (rule rerender_same) (simp add: effect_deps_def)
  have p: "perform srv Submit st = run srv (effect_deps ?s1) [AuthJob ?n (Resolved t)] ?s1"
    using s e by (simp add: perform_def Let_def)
  obtain new s2 where r: "resume srv (AuthJob ?n (Resolved t)) ?s1 = (new, s2)"
    by (cases "resume srv (AuthJob ?n (Resolved t)) ?s1")
  obtain eff s3 where e2: "rerender srv (effect_deps ?s1) s2 = (eff, s3)"
    by (cases "rerender srv (effect_deps ?s1) s2")
  let ?set = "setItem t st"
  have new: "list_all no_login new" and s2: "removes_only ?set s2"
    using r
    by (auto simp: submit_resume_def track_eq handleAuthSuccess_def loadTasks_issue_def issue_eq
        no_login_def intro!: removes_only_same)
  note b = removes_only_rerender [OF e2]
  then have "removes_only s3 (run srv (effect_deps s2) (new @ eff) s3)"
    using new by (intro removes_only_run) simp
  then have "removes_only ?set (perform srv Submit st)"
    unfolding p run_single [OF r e2] using s2 b by (blast intro: removes_only_trans)
  then show ?thesis
    by (intro exI [of _ ?set]) simp
qed

text \<open>
  Claim C2. Whatever the action, the state and the server: the writes an action makes to
  the stored token are those between its log before and after, and they account for the
  token it leaves. \<open>setItem\<close> with a token \<open>t\<close> is among them exactly when the action is an
  auth submit (login or signup) whose inputs pass validation and whose request is
  resolved with \<open>t\<close>; it is then the first write, followed by removals only (one for
  each 401 on the task list, which is loaded after it by the handler and by the effect).
  Logging out removes the token.
\<close>

theorem token_writes:
  "ls_log (perform srv a st) = ls_log st @ storage_ops srv a st \<and>
   ls_token (perform srv a st) = replay (storage_ops srv a st) (ls_token st) \<and>
   (SetItem t \<in> set (storage_ops srv a st)) =
     (a = Submit \<and> inputs_valid st \<and>
      reply_to (auth_reply srv) (submit_request st) st = Resolved t) \<and>
   (inputs_valid st \<and> reply_to (auth_reply srv) (submit_request st) st = Resolved t \<longrightarrow>
      hd (storage_ops srv Submit st) = SetItem t \<and>
      list_all (\<lambda>x. x = RemoveItem) (tl (storage_ops srv Submit st))) \<and>
   storage_ops srv Logout st = [RemoveItem] \<and>
   ls_token (perform srv Logout st) = None"
proof -
  let ?ok = "a = Submit \<and> inputs_valid st \<and>
      (\<exists>t. reply_to (auth_reply srv) (submit_request st) st = Resolved t)"
  have sets: "\<exists>ops. storage_ops srv Submit st = SetItem u # ops \<and>
      ls_log (perform srv Submit st) = ls_log st @ SetItem u # ops \<and>
      ls_token (perform srv Submit st) = replay ops (Some u) \<and>
      list_all (\<lambda>x. x = RemoveItem) ops"
    if v: "inputs_valid st" and r: "reply_to (auth_reply srv) (submit_request st) st = Resolved u"
    for u
  proof -
    obtain st1 where st1: "ls_log st1 = ls_log st @ [SetItem u]" "ls_token st1 = Some u"
        "removes_only st1 (perform srv Submit st)"
      using perform_submit_sets [OF v r] by blast
    then obtain ops where "ls_log (perform srv Submit st) = ls_log st1 @ ops"
        "ls_token (perform srv Submit st) = replay ops (ls_token st1)"
        "list_all (\<lambda>x. x = RemoveItem) ops"
      by (auto simp: removes_only_def)
    with st1 show ?thesis
      by (simp add: storage_ops_def)
  qed
  have main: "ls_log (perform srv a st) = ls_log st @ storage_ops srv a st \<and>
      ls_token (perform srv a st) = replay (storage_ops srv a st) (ls_token st) \<and>
      (SetItem t \<in> set (storage_ops srv a st)) =
        (a = Submit \<and> inputs_valid st \<and>
         reply_to (auth_reply srv) (submit_request st) st = Resolved t)"
  proof (cases ?ok)
    case True
    then obtain u where u: "a = Submit" "inputs_valid st"
        "reply_to (auth_reply srv) (submit_request st) st = Resolved u"
      by blast
    from sets [OF u(2) u(3)] obtain ops where
        "storage_ops srv Submit st = SetItem u # ops"
        "ls_log (perform srv Submit st) = ls_log st @ SetItem u # ops"
        "ls_token (perform srv Submit st) = replay ops (Some u)"
        "list_all (\<lambda>x. x = RemoveItem) ops"
      by blast
    with u show ?thesis
      by (auto simp: list_all_iff)
  next
    case False
    then have "removes_only st (perform srv a st)"
      by (rule removes_only_perform)
    from removes_only_ops [OF this, of t] False show ?thesis
      by (auto simp: storage_ops_def)
  qed
  have out: "storage_ops srv Logout st = [RemoveItem] \<and> ls_token (perform srv Logout st) = None"
    by (simp add: storage_ops_def perform_def Let_def rerender_logged_out logout_def)
  have first: "hd (storage_ops srv Submit st) = SetItem t \<and>
      list_all (\<lambda>x. x = RemoveItem) (tl (storage_ops srv Submit st))"
    if "inputs_valid st" "reply_to (auth_reply srv) (submit_request st) st = Resolved t"
    using sets [OF that] by auto
  show ?thesis
    using main out first by blast
qed

theorem token_writes_witness:
  "inputs_valid logging_in \<and>
   SetItem ''t'' \<in> set (storage_ops (accepting ''t'') Submit logging_in) \<and>
   hd (storage_ops (accepting ''t'') Submit logging_in) = SetItem ''t'' \<and>
   storage_ops (accepting ''t'') Logout logged_in = [RemoveItem]"
proof -
  note valid = logging_in_valid
  have r: "reply_to (auth_reply (accepting ''t'')) (submit_request logging_in) logging_in =
      Resolved ''t''"
    by (simp add: reply_to_def accepting_def)
  show ?thesis
    using token_writes [of "accepting ''t''" Submit logging_in "''t''"]
      token_writes [of "accepting ''t''" Logout logged_in "''t''"]
    by (simp add: valid r)
qed

text \<open>
  The two traces on which the task list is requested twice: a login that is accepted and
  then answered 401 on the task list, and a page load with a stored token that is
  answered 401.
\<close>

lemma login_then_401:
  "storage_ops (forgetful ''t'') Submit logging_in = [SetItem ''t'', RemoveItem, RemoveItem] \<and>
   map url (issued (forgetful ''t'') Submit logging_in) = [''/auth/login'', ''/tasks'', ''/tasks''] \<and>
   length (console (perform (forgetful ''t'') Submit logging_in)) = 2 \<and>
   ls_token (perform (forgetful ''t'') Submit logging_in) = None"
  by code_simp

lemma page_load_401:
  "storage_ops (rejecting (plain_error 401)) Mount logged_in = [RemoveItem, RemoveItem] \<and>
   map url (issued (rejecting (plain_error 401)) Mount logged_in) = [''/tasks'', ''/tasks''] \<and>
   length (console (perform (rejecting (plain_error 401)) Mount logged_in)) = 2"
  by code_simp

subsection \<open>Requests in flight\<close>

lemma events_fields [simp]:
  "events (showToast m v st) = events st"
  "events (removeItem st) = events st"
  "events (setItem t st) = events st"
  "events (loadTasks_settle res st) = events st"
  by (simp_all add: showToast_def removeItem_def setItem_def loadTasks_settle_def Let_def
      split: http_result.splits)

lemma peak_settled: "list_all is_settled ss \<Longrightarrow> peak n ss = n"
proof (induction ss arbitrary: n)
  case Nil
  show ?case by simp
next
  case (Cons e ss)
  then show ?case by (cases e) (simp_all add: is_settled_def)
qed

lemma loadTasks_settle_deps:
  "effect_deps (loadTasks_settle res st) = effect_deps st \<or> \<not> userLoaded (loadTasks_settle res st)"
  by (cases res) (simp_all add: loadTasks_settle_def Let_def effect_deps_def)

text \<open>A render that finds the dependencies unchanged, or the user logged out, starts nothing.\<close>

lemma rerender_quiet:
  assumes "effect_deps s1 = prev \<or> \<not> userLoaded s1"
  shows "\<exists>s2. rerender srv prev s1 = ([], s2) \<and> events s2 = events s1 \<and>
    effect_deps s2 = effect_deps s1"
  using assms
  by (auto simp: rerender_same rerender_logged_out effect_deps_def)

lemma run_loads:
  assumes "list_all is_load jobs" and "prev = effect_deps st"
  shows "\<exists>ss. events (run srv prev jobs st) = events st @ ss \<and> list_all is_settled ss"
  using assms
proof (induction srv prev jobs st rule: run.induct)
  case (1 srv prev jobs st)
  show ?case
  proof (cases "jobs = []")
    case True
    then show ?thesis by simp
  next
    case False
    let ?i = "arrives srv (events st) mod length jobs"
    have i: "?i < length jobs" using False by simp
    then have "is_load (jobs ! ?i)" using "1.prems"(1) by (simp add: list_all_length)
    then obtain n res where j: "jobs ! ?i = LoadJob n res"
      by (cases "jobs ! ?i") (simp_all add: is_load_def)
    let ?s1 = "loadTasks_settle res (settled n st)"
    have r: "resume srv (jobs ! ?i) st = ([], ?s1)" using j by simp
    have "effect_deps ?s1 = prev \<or> \<not> userLoaded ?s1"
      using loadTasks_settle_deps [of res "settled n st"] "1.prems"(2)
      by (simp add: effect_deps_def)
    then obtain s2 where e: "rerender srv prev ?s1 = ([], s2)" and s2: "events s2 = events ?s1"
        "effect_deps s2 = effect_deps ?s1"
      using rerender_quiet by blast
    have rest: "list_all is_load (take ?i jobs @ drop (Suc ?i) jobs @ [] @ [])"
      using "1.prems"(1) by (auto simp: list_all_iff dest: in_set_takeD in_set_dropD)
    from "1.IH" [OF False r [symmetric] e [symmetric] rest s2(2) [symmetric]]
    obtain ss where "events (run srv (effect_deps ?s1) (take ?i jobs @ drop (Suc ?i) jobs @ [] @ []) s2) = events s2 @ ss"
        "list_all is_settled ss"
      by blast
    then have "events (run srv prev jobs st) = events st @ Settled n # ss"
      "list_all is_settled (Settled n # ss)"
      using run_step [OF False refl r e] s2(1) by (simp_all add: is_settled_def)
    then show ?thesis by blast
  qed
qed

text \<open>
  A reply other than that of a login or signup: while it is handled and the task list is
  reloaded after it, one request is in flight at most.
\<close>

lemma run_one_at_a_time:
  assumes "case j of AuthJob n res \<Rightarrow> False | _ \<Rightarrow> True" and "prev = effect_deps s"
  shows "\<exists>es. events (run srv prev [j] s) = events s @ es \<and> peak 1 es = 1"
proof -
  obtain new s1 where r: "resume srv j s = (new, s1)"
    by (cases "resume srv j s")
  have out: "\<exists>es. events s1 = events s @ es \<and> list_all is_load new \<and>
      (effect_deps s1 = prev \<or> \<not> userLoaded s1) \<and>
      (\<exists>n. es = [Settled n] \<and> new = [] \<or> (\<exists>m. es = [Settled n, Issued m] \<and> new \<noteq> []))"
  proof (cases j)
    case (AuthJob n res)
    with assms(1) show ?thesis by simp
  next
    case (SubmitJob n editing res)
    with r assms(2) show ?thesis
      by (cases res)
        (auto simp: handleSubmit_resume_def loadTasks_start_eq is_load_def effect_deps_def
          split: option.splits)
  next
    case (ToggleJob n res)
    with r assms(2) show ?thesis
      by (cases res)
        (auto simp: toggleStatus_resume_def loadTasks_start_eq is_load_def effect_deps_def)
  next
    case (DeleteJob n res)
    with r assms(2) show ?thesis
      by (cases res)
        (auto simp: handleDeleteConfirm_resume_def loadTasks_start_eq is_load_def
          effect_deps_def showToast_def)
  next
    case (LoadJob n res)
    with r assms(2) loadTasks_settle_deps [of res "settled n s"] show ?thesis
      by (auto simp: effect_deps_def)
  qed
  then obtain es where es: "events s1 = events s @ es" "list_all is_load new"
      "effect_deps s1 = prev \<or> \<not> userLoaded s1"
      "\<exists>n. es = [Settled n] \<and> new = [] \<or> (\<exists>m. es = [Settled n, Issued m] \<and> new \<noteq> [])"
    by blast
  obtain s2 where e: "rerender srv prev s1 = ([], s2)" and s2: "events s2 = events s1"
      "effect_deps s2 = effect_deps s1"
    using rerender_quiet [OF es(3)] by blast
  obtain ss where ss: "events (run srv (effect_deps s1) (new @ []) s2) = events s2 @ ss"
      "list_all is_settled ss"
    using run_loads [of "new @ []" "effect_deps s1" s2 srv] es(2) s2(2) by auto
  have "events (run srv prev [j] s) = events s @ es @ ss"
    using run_single [OF r e] ss(1) s2(1) es(1) by simp
  moreover have "peak 1 (es @ ss) = 1"
    using es(4) peak_settled [OF ss(2)] by auto
  ultimately show ?thesis by blast
qed

lemma perform_one_at_a_time:
  assumes "start srv a st = ([j], s1)" and "case j of AuthJob n res \<Rightarrow> False | _ \<Rightarrow> True"
    and "events s1 = events st @ [Issued n]" and "effect_deps s1 = effect_deps st"
    and "a \<noteq> Mount"
  shows "peak 0 (happened srv a st) = 1"
proof -
  have "perform srv a st = run srv (effect_deps s1) [j] s1"
    using assms(1,4,5) by (cases a) (simp_all add: perform_def Let_def rerender_same)
  moreover obtain es where "events (run srv (effect_deps s1) [j] s1) = events s1 @ es"
      "peak 1 es = 1"
    using run_one_at_a_time [OF assms(2) refl] by blast
  ultimately show ?thesis
    using assms(3) by (simp add: happened_def)
qed

lemma rerender_reload:
  "userLoaded st \<Longrightarrow> effect_deps st \<noteq> prev \<Longrightarrow> rerender srv prev st = loadTasks_start srv st"
  by (simp add: rerender_def Let_def)

lemma submit_happened:
  assumes "inputs_valid st"
  shows "\<exists>es. happened srv Submit st =
      Issued (length (sent st)) # Settled (length (sent st)) # es \<and>
    peak 0 es =
      (case reply_to (auth_reply srv) (submit_request st) st of
         Resolved tok \<Rightarrow> if userLoaded st then 1 else 2
       | Rejected e \<Rightarrow> 0)"
proof -
  let ?n = "length (sent st)"
  let ?res = "reply_to (auth_reply srv) (submit_request st) st"
  let ?s1 = "st\<lparr>af_fieldErrors := [''email'' \<mapsto> [], ''password'' \<mapsto> []], af_loading := True,
         sent := sent st @ [interceptor (ls_token st) (submit_request st)],
         events := events st @ [Issued ?n]\<rparr>"
  have s: "start srv Submit st = ([AuthJob ?n ?res], ?s1)"
    using assms by (simp add: submit_start_valid)
  have e: "rerender srv (effect_deps st) ?s1 = ([], ?s1)"
    by (rule rerender_same) (simp add: effect_deps_def)
  have p: "perform srv Submit st = run srv (effect_deps ?s1) [AuthJob ?n ?res] ?s1"
    using s e by (simp add: perform_def Let_def)
  obtain new s2 where r: "resume srv (AuthJob ?n ?res) ?s1 = (new, s2)"
    by (cases "resume srv (AuthJob ?n ?res) ?s1")
  obtain eff s3 where e2: "rerender srv (effect_deps ?s1) s2 = (eff, s3)"
    by (cases "rerender srv (effect_deps ?s1) s2")
  have q: "perform srv Submit st = run srv (effect_deps s2) (new @ eff) s3"
    unfolding p by (rule run_single [OF r e2])
  show ?thesis
  proof (cases ?res)
    case (Rejected err)
    with r have new: "new = []" and s2: "events s2 = events st @ [Issued ?n, Settled ?n]"
        "effect_deps s2 = effect_deps ?s1"
      by (auto simp: submit_resume_def effect_deps_def)
    with e2 have "eff = []" "s3 = s2"
      by (simp_all add: rerender_same)
    with new s2 q Rejected show ?thesis
      by (simp add: happened_def)
  next
    case (Resolved tok)
    with r have new: "list_all is_load new" "length new = 1"
      and s2: "events s2 = events st @ [Issued ?n, Settled ?n, Issued (Suc ?n)]"
        "userLoaded s2" "filterQ s2 = filterQ st" "filterStatus s2 = filterStatus st"
        "length (sent s2) = Suc (Suc ?n)"
      by (auto simp: submit_resume_def track_eq handleAuthSuccess_def loadTasks_issue_def
          issue_eq is_load_def)
    show ?thesis
    proof (cases "userLoaded st")
      case True
      with s2 have "effect_deps s2 = effect_deps ?s1"
        by (simp add: effect_deps_def)
      with e2 have eff: "eff = []" "s3 = s2"
        by (simp_all add: rerender_same)
      obtain ss where "events (run srv (effect_deps s2) (new @ eff) s3) = events s3 @ ss"
          "list_all is_settled ss"
        using run_loads [of "new @ eff" "effect_deps s2" s3 srv] new(1) eff by auto
      then have "peak k ss = k" for k
        by (simp add: peak_settled)
      with q eff s2(1) True Resolved \<open>events (run srv (effect_deps s2) (new @ eff) s3) = events s3 @ ss\<close>
      show ?thesis
        by (simp add: happened_def)
    next
      case False
      with s2 have "effect_deps s2 \<noteq> effect_deps ?s1"
        by (simp add: effect_deps_def)
      with e2 s2(2) have eff: "(eff, s3) = loadTasks_start srv s2"
        by (simp add: rerender_reload)
      then have eff': "list_all is_load eff" "events s3 = events s2 @ [Issued (Suc (Suc ?n))]"
          "effect_deps s3 = effect_deps s2"
        using s2(5) by (auto simp: loadTasks_start_eq is_load_def effect_deps_def)
      obtain ss where "events (run srv (effect_deps s2) (new @ eff) s3) = events s3 @ ss"
          "list_all is_settled ss"
        using run_loads [of "new @ eff" "effect_deps s2" s3 srv] new(1) eff' by auto
      then have "peak k ss = k" for k
        by (simp add: peak_settled)
      with q eff' s2(1) False Resolved \<open>events (run srv (effect_deps s2) (new @ eff) s3) = events s3 @ ss\<close>
      show ?thesis
        by (simp add: happened_def)
    qed
  qed
qed

text \<open>
  Claim C7, as amended. For a search, a task add or update submit, a status toggle and a
  delete confirm, one request is in flight at most at any time: the task list is reloaded
  only after the request before it has been answered. For an auth submit, the login or
  signup request is answered before anything else is sent; when it is accepted in the
  logged-out view, the task list is then requested twice, by \<open>handleAuthSuccess\<close> and by
  the effect on \<open>userLoaded\<close>, and the two requests are in flight together.
\<close>

theorem in_flight_bound:
  "(a = Search \<or> a = TaskSubmit \<or> a = Toggle t \<or> a = DeleteConfirm \<longrightarrow>
      peak 0 (happened srv a st) = 1) \<and>
   peak 0 (happened srv Submit st) =
     (if \<not> inputs_valid st then 0
      else case reply_to (auth_reply srv) (submit_request st) st of
             Resolved tok \<Rightarrow> if userLoaded st then 1 else 2
           | Rejected e \<Rightarrow> 1) \<and>
   (inputs_valid st \<longrightarrow>
      take 2 (happened srv Submit st) = [Issued (length (sent st)), Settled (length (sent st))])"
proof -
  have search: "peak 0 (happened srv Search st) = 1"
    using perform_one_at_a_time [OF start.simps(6) [unfolded loadTasks_start_eq]]
    by (simp add: effect_deps_def)
  have add: "peak 0 (happened srv TaskSubmit st) = 1"
    using perform_one_at_a_time [OF start.simps(9) [unfolded handleSubmit_start_eq]]
    by (simp add: effect_deps_def)
  have toggle: "peak 0 (happened srv (Toggle t) st) = 1"
    using perform_one_at_a_time [OF start.simps(11) [unfolded toggleStatus_start_eq]]
    by (simp add: effect_deps_def)
  have delete: "peak 0 (happened srv DeleteConfirm st) = 1"
    using perform_one_at_a_time [OF start.simps(13) [unfolded handleDeleteConfirm_start_eq]]
    by (simp add: effect_deps_def)
  have "peak 0 (happened srv a st) = 1"
    if "a = Search \<or> a = TaskSubmit \<or> a = Toggle t \<or> a = DeleteConfirm"
    using that search add toggle delete by blast
  moreover have "peak 0 (happened srv Submit st) = 0" if "\<not> inputs_valid st"
  proof -
    have "perform srv Submit st =
        st\<lparr>af_fieldErrors := [''email'' \<mapsto> validateEmail (af_email st),
                                ''password'' \<mapsto> validatePassword (af_isLogin st) (af_password st)]\<rparr>"
      using that by (intro perform_start_only) (simp_all add: submit_start_invalid effect_deps_def)
    then show ?thesis by (simp add: happened_def)
  qed
  moreover have "peak 0 (happened srv Submit st) =
        (case reply_to (auth_reply srv) (submit_request st) st of
             Resolved tok \<Rightarrow> if userLoaded st then 1 else 2
           | Rejected e \<Rightarrow> 1) \<and>
      take 2 (happened srv Submit st) = [Issued (length (sent st)), Settled (length (sent st))]"
    if "inputs_valid st"
    using submit_happened [OF that, of srv]
    by (auto split: http_result.splits)
  ultimately show ?thesis by simp
qed

theorem in_flight_bound_witness:
  "peak 0 (happened (accepting ''t'') TaskSubmit logged_in) = 1 \<and>
   inputs_valid logging_in \<and>
   peak 0 (happened (rejecting (plain_error 401)) Submit logging_in) = 1 \<and>
   take 2 (happened (accepting ''t'') Submit logging_in) = [Issued 0, Settled 0]"
proof -
  have st: "sent logging_in = []" "userLoaded logging_in = False"
    by (simp_all add: logging_in_def)
  show ?thesis
    using in_flight_bound [of TaskSubmit task7 "accepting ''t''" logged_in]
      in_flight_bound [of Submit task7 "rejecting (plain_error 401)" logging_in]
      in_flight_bound [of Submit task7 "accepting ''t''" logging_in]
    by (simp add: logging_in_valid reply_to_def rejecting_def st)
qed

text \<open>
  The claim as stated fails for an auth submit: a login accepted in the logged-out view
  is followed by two requests for the task list, both sent before either is answered.
\<close>

theorem login_two_in_flight:
  "happened (accepting ''t'') Submit logging_in =
     [Issued 0, Settled 0, Issued 1, Issued 2, Settled 1, Settled 2] \<and>
   map url (issued (accepting ''t'') Submit logging_in) = [''/auth/login'', ''/tasks'', ''/tasks''] \<and>
   peak 0 (happened (accepting ''t'') Submit logging_in) = 2"
  by code_simp

subsection \<open>What the forms show after an error\<close>

lemma auth_error_msg_eq:
  "auth_error_msg e =
     (case e of
        None \<Rightarrow> ''Auth failed''
      | Some r \<Rightarrow>
          (let fallback =
                 (case message r of
                    None \<Rightarrow> ''Auth failed''
                  | Some m \<Rightarrow> if m = [] then ''Auth failed'' else m)
           in case errors r of
                None \<Rightarrow> fallback
              | Some [] \<Rightarrow> fallback
              | Some (x # xs) \<Rightarrow> if msg x = [] then fallback else msg x))"
  by (simp add: auth_error_msg_def or_string_def first_error_msg_def response_message_def
      truthy_def Let_def split: option.splits list.splits)

lemma task_form_feedback_eq:
  "userLoaded st \<Longrightarrow>
   task_form_feedback st f =
     (if f = ''title'' \<or> f = ''description''
      then (case fieldErrors st f of None \<Rightarrow> None | Some m \<Rightarrow> if m = [] then None else Some m)
      else None)"
  by (simp add: task_form_feedback_def render_def invalid_feedback_def truthy_def
      split: option.splits)

text \<open>
  Claim C4, as amended. On a 400 answer to a task create or update, the field errors of
  the task form become the map from each path of the \<open>errors\<close> array to the message of
  the last entry with that path. The inputs \<open>title\<close> and \<open>description\<close>, which the task
  view renders, show the message
  stored under their name when it is not empty (so, when the paths are distinct, every
  entry with one of these paths and a non-empty message is shown at the input its path
  names); entries with other paths are stored and shown at no input. On a rejected auth
  submit, whatever the status, the \<open>email\<close> and \<open>password\<close> inputs keep the (empty)
  results of client-side validation and show nothing, and one message is set on the key
  \<open>form\<close>, shown above the buttons of the auth view and as the \<open>danger\<close> toast: the \<open>msg\<close>
  of the first
  entry of \<open>errors\<close> when it is not empty, else the \<open>message\<close> of the response when it is
  not empty, else \<open>Auth failed\<close>.
\<close>

theorem field_errors_mapped:
  "(reply_to (write_reply srv) (handleSubmit_request st) st = Rejected (Some r) \<and> status r = 400 \<longrightarrow>
      fieldErrors (handleSubmit srv st) = last_msg (errors_or_empty r) \<and>
      (distinct (map path (errors_or_empty r)) \<longrightarrow>
         (\<forall>x \<in> set (errors_or_empty r). fieldErrors (handleSubmit srv st) (path x) = Some (msg x))) \<and>
      (userLoaded st \<longrightarrow>
         (\<forall>f. task_form_feedback (handleSubmit srv st) f =
            (if f = ''title'' \<or> f = ''description''
             then (case last_msg (errors_or_empty r) f of
                     None \<Rightarrow> None
                   | Some m \<Rightarrow> if m = [] then None else Some m)
             else None)) \<and>
         (distinct (map path (errors_or_empty r)) \<longrightarrow>
            (\<forall>x \<in> set (errors_or_empty r).
               (path x = ''title'' \<or> path x = ''description'') \<and> msg x \<noteq> [] \<longrightarrow>
               task_form_feedback (handleSubmit srv st) (path x) = Some (msg x)))) \<and>
      (\<not> userLoaded st \<longrightarrow> (\<forall>f. task_form_feedback (handleSubmit srv st) f = None))) \<and>
   (inputs_valid st \<and> reply_to (auth_reply srv) (submit_request st) st = Rejected e \<longrightarrow>
      af_fieldErrors (submit srv st) =
        [''email'' \<mapsto> [], ''password'' \<mapsto> [], ''form'' \<mapsto> auth_error_msg e] \<and>
      toast (submit srv st) =
        \<lparr>toast_show = True, toast_msg = auth_error_msg e, toast_variant = ''danger''\<rparr> \<and>
      (\<forall>f. auth_form_feedback (submit srv st) f = None) \<and>
      auth_form_error (submit srv st) = (if userLoaded st then None else Some (auth_error_msg e))) \<and>
   auth_error_msg e =
     (case e of
        None \<Rightarrow> ''Auth failed''
      | Some r' \<Rightarrow>
          (let fallback =
                 (case message r' of
                    None \<Rightarrow> ''Auth failed''
                  | Some m \<Rightarrow> if m = [] then ''Auth failed'' else m)
           in case errors r' of
                None \<Rightarrow> fallback
              | Some [] \<Rightarrow> fallback
              | Some (x # xs) \<Rightarrow> if msg x = [] then fallback else msg x))"
proof -
  have task: "fieldErrors (handleSubmit srv st) = last_msg (errors_or_empty r) \<and>
      userLoaded (handleSubmit srv st) = userLoaded st"
    if "reply_to (write_reply srv) (handleSubmit_request st) st = Rejected (Some r)" "status r = 400"
    using that by (simp add: handleSubmit_def issue_eq forEach_newField_empty)
  have shown: "task_form_feedback (handleSubmit srv st) f =
            (if f = ''title'' \<or> f = ''description''
             then (case last_msg (errors_or_empty r) f of
                     None \<Rightarrow> None
                   | Some m \<Rightarrow> if m = [] then None else Some m)
             else None)"
    if "reply_to (write_reply srv) (handleSubmit_request st) st = Rejected (Some r)" "status r = 400"
      "userLoaded st" for f
    using task [OF that(1,2)] that(3) by (simp add: task_form_feedback_eq)
  have auth: "af_fieldErrors (submit srv st) =
        [''email'' \<mapsto> [], ''password'' \<mapsto> [], ''form'' \<mapsto> auth_error_msg e] \<and>
      toast (submit srv st) =
        \<lparr>toast_show = True, toast_msg = auth_error_msg e, toast_variant = ''danger''\<rparr> \<and>
      userLoaded (submit srv st) = userLoaded st"
    if "inputs_valid st" "reply_to (auth_reply srv) (submit_request st) st = Rejected e"
    using that by (simp add: submit_valid Let_def)
  have auth_shown: "(\<forall>f. auth_form_feedback (submit srv st) f = None) \<and>
      auth_form_error (submit srv st) = (if userLoaded st then None else Some (auth_error_msg e))"
    if "inputs_valid st" "reply_to (auth_reply srv) (submit_request st) st = Rejected e"
    using auth [OF that] auth_error_msg_truthy [of e]
    by (simp add: auth_form_feedback_def auth_form_error_def render_def invalid_feedback_def
        truthy_def)
  have hidden: "task_form_feedback (handleSubmit srv st) f = None"
    if "reply_to (write_reply srv) (handleSubmit_request st) st = Rejected (Some r)" "status r = 400"
      "\<not> userLoaded st" for f
    using task [OF that(1,2)] that(3) by (simp add: task_form_feedback_def render_def)
  show ?thesis
    using task shown hidden auth auth_shown last_msg_distinct [of "errors_or_empty r"]
      auth_error_msg_eq [of e]
    by simp
qed

theorem field_errors_mapped_witness:
  "task_form_feedback (handleSubmit (rejecting title_required) logged_in) ''title'' =
     Some ''Title is required'' \<and>
   auth_form_error (submit (rejecting email_taken) logging_in) = Some ''Email already registered'' \<and>
   toast_msg (toast (submit (rejecting email_taken) logging_in)) = ''Email already registered'' \<and>
   auth_error_msg (Some (plain_error 500)) = ''Auth failed''"
proof -
  note valid = logging_in_valid
  have es: "errors_or_empty title_required = [\<lparr>path = ''title'', msg = ''Title is required''\<rparr>]"
    "status title_required = 400"
    by (simp_all add: errors_or_empty_def title_required_def)
  have st: "userLoaded logged_in" "\<not> userLoaded logging_in"
    by (simp_all add: logged_in_def logging_in_def)
  have m: "errors email_taken = Some [\<lparr>path = ''email'', msg = ''Email already registered''\<rparr>]"
    "errors (plain_error 500) = None" "message (plain_error 500) = None"
    by (simp_all add: email_taken_def plain_error_def)
  show ?thesis
    using field_errors_mapped [of "rejecting title_required" logged_in title_required
        "Some (plain_error 500)"]
      field_errors_mapped [of "rejecting email_taken" logging_in email_taken "Some email_taken"]
    by (simp add: reply_to_def rejecting_def valid es st m last_msg_def)
qed

text \<open>
  The claim as stated fails for an auth submit: a 400 answer with an error on the path
  \<open>email\<close> leaves the \<open>email\<close> input without error and puts the message on \<open>form\<close>.
\<close>

theorem auth_error_on_form:
  "af_fieldErrors (submit (rejecting email_taken) logging_in) ''email'' = Some [] \<and>
   af_fieldErrors (submit (rejecting email_taken) logging_in) ''form'' =
     Some ''Email already registered'' \<and>
   auth_form_feedback (submit (rejecting email_taken) logging_in) ''email'' = None \<and>
   auth_form_error (submit (rejecting email_taken) logging_in) = Some ''Email already registered''"
proof -
  note valid = logging_in_valid
  have msg: "auth_error_msg (Some email_taken) = ''Email already registered''"
    by (simp add: auth_error_msg_def or_string_def first_error_msg_def email_taken_def truthy_def)
  have "\<not> userLoaded logging_in"
    by (simp add: logging_in_def)
  then show ?thesis
    by (simp add: submit_valid [OF valid] Let_def reply_to_def rejecting_def msg
        auth_form_feedback_def auth_form_error_def render_def invalid_feedback_def truthy_def)
qed

subsection \<open>The two readings of a handler agree\<close>

text \<open>
  Each handler, as one function, is its two parts run back to back, but for the log of
  network events, which only the parts keep.
\<close>

lemma settle_events:
  "(loadTasks_settle res (st\<lparr>events := es\<rparr>))\<lparr>events := es'\<rparr> =
   (loadTasks_settle res st)\<lparr>events := es'\<rparr>"
  by (simp add: loadTasks_settle_def Let_def showToast_def removeItem_def
      split: http_result.splits)

lemma loadTasks_phases:
  "loadTasks srv st = (back_to_back srv (loadTasks_start srv st))\<lparr>events := events st\<rparr>"
  by (simp add: back_to_back_def loadTasks_start_eq loadTasks_eq settled_def settle_events)

lemma toggleStatus_phases:
  "toggleStatus srv t st =
     (back_to_back srv (toggleStatus_start srv t st))\<lparr>events := events st\<rparr>"
  by (simp add: back_to_back_def toggleStatus_start_eq toggleStatus_def issue_eq
      toggleStatus_resume_def loadTasks_start_eq loadTasks_eq settled_def settle_events
      reply_to_def loadTasks_request_def showToast_def split: http_result.splits)

lemma handleDeleteConfirm_phases:
  "handleDeleteConfirm srv st =
     (back_to_back srv (handleDeleteConfirm_start srv st))\<lparr>events := events st\<rparr>"
  by (simp add: back_to_back_def handleDeleteConfirm_start_eq handleDeleteConfirm_def issue_eq
      handleDeleteConfirm_resume_def loadTasks_start_eq loadTasks_issue_def settled_def
      settle_events reply_to_def loadTasks_request_def showToast_def split: http_result.splits)

lemma handleSubmit_phases:
  "handleSubmit srv st =
     (back_to_back srv (handleSubmit_start srv st))\<lparr>events := events st\<rparr>"
  by (simp add: back_to_back_def handleSubmit_start_eq handleSubmit_def issue_eq
      handleSubmit_resume_def loadTasks_start_eq loadTasks_eq settled_def settle_events
      reply_to_def loadTasks_request_def showToast_def removeItem_def
      split: http_result.splits option.splits)

lemma mount_phases:
  "mount srv st = (back_to_back srv (mount_start srv st))\<lparr>events := events st\<rparr>"
  by (simp add: back_to_back_def mount_start_def mount_def Let_def loadTasks_start_eq
      loadTasks_eq settled_def settle_events reply_to_def loadTasks_request_def)

lemma submit_phases:
  "submit srv st = (back_to_back srv (submit_start srv st))\<lparr>events := events st\<rparr>"
proof (cases "inputs_valid st")
  case True
  then show ?thesis
    by (simp add: back_to_back_def submit_start_valid submit_valid Let_def submit_resume_def
        track_eq handleAuthSuccess_def loadTasks_issue_def issue_eq settled_def settle_events
        reply_to_def loadTasks_request_def showToast_def setItem_def split: http_result.splits)
next
  case False
  then have "truthy (validateEmail (af_email st)) \<or>
             truthy (validatePassword (af_isLogin st) (af_password st))"
    by (auto simp: inputs_valid_def truthy_def)
  then show ?thesis
    using False by (simp add: back_to_back_def submit_start_invalid submit_invalid)
qed

end
